theory Spec2Isabelle
  imports Main "HOL-Library.Word"
begin

section \<open>The memcache client of gomemcache, embedded from memcache/memcache.go\<close>

text \<open>
  Go strings and byte slices are sequences of bytes: \<open>string\<close> (a list of 8-bit
  characters) models both. Each function below carries the name of the Go function it
  embeds. The statistics commands are not embedded.
\<close>

type_synonym bytes = string

subsection \<open>Addresses, errors, items\<close>

text \<open>
  A \<open>net.Addr\<close> is an interface value: \<open>ref\<close> is the identity of the object behind
  it (what Go's \<open>==\<close> on the interface compares when it is used as a map key),
  \<open>Network\<close> and \<open>String\<close> are its two methods.
\<close>

datatype Addr = Addr (ref: nat) (Network: bytes) (String: bytes)

text \<open>
  The seven package-level error variables are constants. \<open>ConnectTimeoutError\<close>
  is the struct of that name. \<open>Errorf\<close> is a value made by \<open>fmt.Errorf\<close>, kept as
  its format and arguments; \<open>ErrorsNew\<close> is one made by \<open>errors.New\<close> at the
  place of use. \<open>EOF\<close> is \<open>io.EOF\<close>, \<open>ErrBufferFull\<close> is
  \<open>bufio.ErrBufferFull\<close>, and \<open>OtherError\<close> is any other error of the
  libraries, the transport or the selector.
\<close>

datatype error =
    ErrCacheMiss
  | ErrCASConflict
  | ErrNotStored
  | ErrServerError
  | ErrNoStats
  | ErrMalformedKey
  | ErrNoServers
  | ConnectTimeoutError Addr
  | Errorf bytes "bytes list"
  | ErrorsNew bytes
  | EOF
  | ErrBufferFull
  | OtherError bytes

definition maxIdleConnsPerAddr :: nat where
  "maxIdleConnsPerAddr = 2"

text \<open>\<open>resumableError\<close>: the \<open>switch err\<close> compares with the four variables.\<close>

fun resumableError :: "error \<Rightarrow> bool" where
  "resumableError ErrCacheMiss = True"
| "resumableError ErrCASConflict = True"
| "resumableError ErrNotStored = True"
| "resumableError ErrMalformedKey = True"
| "resumableError _ = False"

text \<open>
  \<open>legalKey\<close>: the length test, then the loop over the bytes of the key, which
  returns false at the first byte that is at most a space or above \<open>0x7e\<close>.
\<close>

fun legalKey_loop :: "bytes \<Rightarrow> bool" where
  "legalKey_loop [] = True"
| "legalKey_loop (b # bs) =
     (if (of_char b :: nat) \<le> 0x20 \<or> (of_char b :: nat) > 0x7e then False
      else legalKey_loop bs)"

definition legalKey :: "bytes \<Rightarrow> bool" where
  "legalKey key = (if length key > 250 then False else legalKey_loop key)"

definition crlf :: bytes where
  "crlf = [CHR 0x0D, CHR 0x0A]"

definition space :: bytes where
  "space = '' ''"

definition resultStored :: bytes where
  "resultStored = ''STORED'' @ crlf"

definition resultNotStored :: bytes where
  "resultNotStored = ''NOT_STORED'' @ crlf"

definition resultExists :: bytes where
  "resultExists = ''EXISTS'' @ crlf"

definition resultNotFound :: bytes where
  "resultNotFound = ''NOT_FOUND'' @ crlf"

definition resultDeleted :: bytes where
  "resultDeleted = ''DELETED'' @ crlf"

definition resultEnd :: bytes where
  "resultEnd = ''END'' @ crlf"

definition resultClientErrorPrefix :: bytes where
  "resultClientErrorPrefix = ''CLIENT_ERROR ''"

text \<open>
  \<open>Item\<close>. The field \<open>Object\<close> (an empty interface that this file never reads
  or writes) is left out. Integers on a 64-bit platform: \<open>int\<close> is 64 bits wide.
\<close>

record Item =
  Key :: bytes
  Value :: bytes
  Flags :: "32 word"
  Expiration :: "32 word"
  casid :: "64 word"

subsection \<open>Connections, the client and what is outside it\<close>

text \<open>
  A \<open>conn\<close>: \<open>nc\<close> identifies the transport, \<open>addr\<close> is the address it was
  dialed for, and \<open>rbuf\<close> holds the bytes that have arrived and that the buffered
  reader has not handed out yet.
\<close>

record conn =
  nc :: nat
  addr :: Addr
  rbuf :: bytes

text \<open>What the client does to the outside, in the order it does it.\<close>

datatype event =
    EvPickServer bytes
  | EvDial Addr
  | EvSetDeadline nat
  | EvSend nat bytes
  | EvClose nat

text \<open>
  The client: \<open>freeconn\<close> is the map from \<open>addr.String()\<close> to the idle list,
  \<open>None\<close> while the Go map is nil. \<open>trace\<close> records the events and \<open>fresh\<close>
  numbers the transports; the lock and the timeout are not modelled.
\<close>

record client =
  freeconn :: "(bytes \<rightharpoonup> conn list) option"
  trace :: "event list"
  fresh :: nat

definition newClient :: client where
  "newClient = \<lparr>freeconn = None, trace = [], fresh = 0\<rparr>"

definition freelist_of :: "client \<Rightarrow> bytes \<Rightarrow> conn list" where
  "freelist_of c s =
     (case freeconn c of None \<Rightarrow> []
      | Some m \<Rightarrow> (case m s of None \<Rightarrow> [] | Some l \<Rightarrow> l))"

definition closeConn :: "conn \<Rightarrow> client \<Rightarrow> client" where
  "closeConn cn c = c\<lparr>trace := trace c @ [EvClose (nc cn)]\<rparr>"

text \<open>\<open>putFreeConn\<close>\<close>

definition putFreeConn :: "Addr \<Rightarrow> conn \<Rightarrow> client \<Rightarrow> client" where
  "putFreeConn a cn c =
     (let m = (case freeconn c of None \<Rightarrow> Map.empty | Some m \<Rightarrow> m);
          c1 = c\<lparr>freeconn := Some m\<rparr>;
          freelist = (case m (String a) of None \<Rightarrow> [] | Some l \<Rightarrow> l)
      in if length freelist \<ge> maxIdleConnsPerAddr then closeConn cn c1
         else c1\<lparr>freeconn := Some (m(String a \<mapsto> freelist @ [cn]))\<rparr>)"

text \<open>\<open>getFreeConn\<close>: the pair \<open>(cn, ok)\<close> is an option.\<close>

definition getFreeConn :: "Addr \<Rightarrow> client \<Rightarrow> conn option \<times> client" where
  "getFreeConn a c =
     (case freeconn c of
        None \<Rightarrow> (None, c)
      | Some m \<Rightarrow>
          (case m (String a) of
             None \<Rightarrow> (None, c)
           | Some freelist \<Rightarrow>
               if length freelist = 0 then (None, c)
               else (Some (freelist ! (length freelist - 1)),
                     c\<lparr>freeconn :=
                         Some (m(String a \<mapsto> take (length freelist - 1) freelist))\<rparr>)))"

definition release :: "conn \<Rightarrow> client \<Rightarrow> client" where
  "release cn c = putFreeConn (addr cn) cn c"

definition extendDeadline :: "conn \<Rightarrow> client \<Rightarrow> client" where
  "extendDeadline cn c = c\<lparr>trace := trace c @ [EvSetDeadline (nc cn)]\<rparr>"

text \<open>\<open>condRelease\<close>: \<open>None\<close> is the nil error.\<close>

definition condRelease :: "error option \<Rightarrow> conn \<Rightarrow> client \<Rightarrow> client" where
  "condRelease err cn c =
     (case err of
        None \<Rightarrow> release cn c
      | Some e \<Rightarrow> if resumableError e then release cn c else closeConn cn c)"

subsection \<open>The selector, the network and the libraries\<close>

text \<open>
  Everything the client calls and this repository does not define is a field of
  \<open>world\<close>, and every theorem holds for every world.
  \<^item> \<open>PickServer\<close> is the selector.
  \<^item> \<open>netDial a n\<close> is the race in \<open>dial\<close> for the transport numbered \<open>n\<close>:
    whether the timer fired before \<open>net.Dial\<close> answered, and what \<open>net.Dial\<close>
    answered (\<open>None\<close>: connected).
  \<^item> \<open>netSend n req\<close> is the error, if any, of writing and flushing \<open>req\<close> on
    transport \<open>n\<close>.
  \<^item> \<open>netReply n req\<close> is what transport \<open>n\<close> then delivers: the bytes that
    arrive, and the error a read meets once they are used up (\<open>EOF\<close>, a timeout).
  \<^item> \<open>Sscanf line n\<close> is \<open>fmt.Sscanf\<close> on a \<open>VALUE\<close> line with the pattern of
    \<open>n\<close> destinations (3 or 4): the key, the flags, the size and the cas id that it
    stores, \<open>None\<close> when it reports an error or fills fewer than \<open>n\<close>.
  \<^item> \<open>spare v\<close> is the content of the array behind the slice \<open>v\<close> that
    \<open>ioutil.ReadAll\<close> returns, from the end of \<open>v\<close> up to its capacity.
\<close>

record world =
  PickServer :: "bytes \<Rightarrow> error + Addr"
  netDial :: "Addr \<Rightarrow> nat \<Rightarrow> bool \<times> error option"
  netSend :: "nat \<Rightarrow> bytes \<Rightarrow> error option"
  netReply :: "nat \<Rightarrow> bytes \<Rightarrow> bytes \<times> error"
  Sscanf :: "bytes \<Rightarrow> nat \<Rightarrow> (bytes \<times> 32 word \<times> 64 word \<times> 64 word) option"
  spare :: "bytes \<Rightarrow> bytes"

text \<open>
  \<open>dial\<close>: the answer of \<open>net.Dial\<close> if it comes before the timer; otherwise
  \<open>ConnectTimeoutError\<close>, and a transport that still comes in is closed.
\<close>

definition dial :: "world \<Rightarrow> Addr \<Rightarrow> client \<Rightarrow> (error + nat) \<times> client" where
  "dial w a c =
     (let n = fresh c;
          c1 = c\<lparr>trace := trace c @ [EvDial a], fresh := Suc n\<rparr>
      in case netDial w a n of
           (False, None) \<Rightarrow> (Inr n, c1)
         | (False, Some e) \<Rightarrow> (Inl e, c1)
         | (True, None) \<Rightarrow> (Inl (ConnectTimeoutError a), c1\<lparr>trace := trace c1 @ [EvClose n]\<rparr>)
         | (True, Some e) \<Rightarrow> (Inl (ConnectTimeoutError a), c1))"

text \<open>\<open>getConn\<close>\<close>

definition getConn :: "world \<Rightarrow> Addr \<Rightarrow> client \<Rightarrow> (error + conn) \<times> client" where
  "getConn w a c =
     (case getFreeConn a c of
        (Some cn, c1) \<Rightarrow> (Inr cn, extendDeadline cn c1)
      | (None, c1) \<Rightarrow>
          (case dial w a c1 of
             (Inl err, c2) \<Rightarrow> (Inl err, c2)
           | (Inr n, c2) \<Rightarrow>
               (let cn = \<lparr>nc = n, addr = a, rbuf = []\<rparr>
                in (Inr cn, extendDeadline cn c2))))"

subsection \<open>The buffered reader and writer\<close>

text \<open>
  A reader is the bytes still to come and the error that follows them.
  \<open>bufio.NewReader\<close> gives a buffer of 4096 bytes.
\<close>

type_synonym reader = "bytes \<times> error"

definition defaultBufSize :: nat where
  "defaultBufSize = 4096"

text \<open>
  \<open>r.ReadSlice('\n')\<close>: the line up to and including the first newline when it
  fits the buffer; \<open>ErrBufferFull\<close> when the buffer fills first; the reader's error
  when the bytes end first.
\<close>

definition ReadSlice :: "reader \<Rightarrow> (error + bytes) \<times> reader" where
  "ReadSlice r =
     (let data = fst r; err = snd r;
          i = length (takeWhile (\<lambda>b. b \<noteq> CHR 0x0A) data)
      in if i < length data \<and> i < defaultBufSize
           then (Inr (take (i + 1) data), (drop (i + 1) data, err))
         else if length data \<ge> defaultBufSize
           then (Inl ErrBufferFull, (drop defaultBufSize data, err))
         else (Inl err, ([], err)))"

text \<open>
  \<open>ioutil.ReadAll(io.LimitReader(r, n))\<close>: nothing when \<open>n \<le> 0\<close>; \<open>n\<close> bytes
  when there are that many; what there is when the bytes end with \<open>EOF\<close>, which
  \<open>ReadAll\<close> does not report; the reader's error otherwise.
\<close>

definition ReadAllLimit :: "reader \<Rightarrow> int \<Rightarrow> (error + bytes) \<times> reader" where
  "ReadAllLimit r n =
     (let data = fst r; err = snd r
      in if n \<le> 0 then (Inr [], r)
         else if nat n \<le> length data
           then (Inr (take (nat n) data), (drop (nat n) data, err))
         else if err = EOF then (Inr data, ([], err))
         else (Inl err, ([], err)))"

text \<open>
  The slice expression \<open>v[:size]\<close> on the result of \<open>ReadAll\<close>: Go panics when
  \<open>size\<close> is negative or above the capacity, and otherwise gives the first
  \<open>size\<close> bytes of the array behind \<open>v\<close>.
\<close>

definition reslice :: "world \<Rightarrow> bytes \<Rightarrow> int \<Rightarrow> bytes option" where
  "reslice w v sz =
     (if sz < 0 \<or> int (length v + length (spare w v)) < sz then None
      else Some (take (nat sz) (v @ spare w v)))"

definition HasSuffix :: "bytes \<Rightarrow> bytes \<Rightarrow> bool" where
  "HasSuffix s suffix =
     (length s \<ge> length suffix \<and> drop (length s - length suffix) s = suffix)"

definition HasPrefix :: "bytes \<Rightarrow> bytes \<Rightarrow> bool" where
  "HasPrefix s prefix = (length s \<ge> length prefix \<and> take (length prefix) s = prefix)"

text \<open>
  Writing a request and flushing it: the writes to the buffered writer and the
  \<open>Flush\<close> are one \<open>netSend\<close> of the whole request, and the first error of any of
  them is its error. After it the reader holds what was unread and what arrives.
\<close>

definition writeFlush :: "world \<Rightarrow> conn \<Rightarrow> bytes \<Rightarrow> client \<Rightarrow> (error + reader) \<times> client" where
  "writeFlush w cn req c =
     (let c1 = c\<lparr>trace := trace c @ [EvSend (nc cn) req]\<rparr>
      in case netSend w (nc cn) req of
           Some err \<Rightarrow> (Inl err, c1)
         | None \<Rightarrow> (Inr (rbuf cn @ fst (netReply w (nc cn) req), snd (netReply w (nc cn) req)), c1))"

text \<open>The verb \<open>%d\<close> of \<open>fmt\<close> on an unsigned and on a signed integer.\<close>

fun itoa :: "nat \<Rightarrow> bytes" where
  "itoa n =
     (if n < 10 then [char_of (48 + n)]
      else itoa (n div 10) @ [char_of (48 + n mod 10)])"

declare itoa.simps [simp del]

definition sitoa :: "int \<Rightarrow> bytes" where
  "sitoa i = (if i < 0 then CHR ''-'' # itoa (nat (- i)) else itoa (nat i))"

text \<open>\<open>strings.Join\<close>\<close>

fun Join :: "bytes list \<Rightarrow> bytes \<Rightarrow> bytes" where
  "Join [] sep = []"
| "Join [x] sep = x"
| "Join (x # y # ys) sep = x @ sep @ Join (y # ys) sep"

text \<open>
  \<open>strconv.ParseUint(s, 10, 64)\<close>: the value and the error; the value is 0 with a
  syntax error and the largest 64-bit value with a range error.
\<close>

fun ParseUint_loop :: "bytes \<Rightarrow> nat \<Rightarrow> 64 word \<times> error option" where
  "ParseUint_loop [] n = (of_nat n, None)"
| "ParseUint_loop (ch # cs) n =
     (if 48 \<le> (of_char ch :: nat) \<and> (of_char ch :: nat) \<le> 57 then
        (if n \<ge> (2 ^ 64 - 1) div 10 + 1
           then (- 1, Some (OtherError ''strconv.ParseUint: value out of range''))
         else if n * 10 + (of_char ch - 48) > 2 ^ 64 - 1
           then (- 1, Some (OtherError ''strconv.ParseUint: value out of range''))
         else ParseUint_loop cs (n * 10 + (of_char ch - 48)))
      else (0, Some (OtherError ''strconv.ParseUint: invalid syntax'')))"

definition ParseUint :: "bytes \<Rightarrow> 64 word \<times> error option" where
  "ParseUint s =
     (if s = [] then (0, Some (OtherError ''strconv.ParseUint: invalid syntax''))
      else ParseUint_loop s 0)"

subsection \<open>Running a function on a connection\<close>

text \<open>
  A Go function that can panic returns an \<open>outcome\<close>. A closure is a function of
  the connection and the client; the variables it assigns are the first component of
  what it returns, and the caller passes their initial value \<open>x0\<close>.
\<close>

datatype 'a outcome = Panic | Done 'a

text \<open>
  \<open>withAddrRw\<close>: the deferred \<open>condRelease\<close> sees the error that \<open>fn\<close>
  returned; when \<open>fn\<close> panics it runs all the same and sees the nil error left by
  \<open>getConn\<close>.
\<close>

definition withAddrRw ::
  "world \<Rightarrow> Addr \<Rightarrow> 'x \<Rightarrow> (conn \<Rightarrow> client \<Rightarrow> ('x \<times> error option) outcome \<times> conn \<times> client)
     \<Rightarrow> client \<Rightarrow> ('x \<times> error option) outcome \<times> client" where
  "withAddrRw w a x0 fn c =
     (case getConn w a c of
        (Inl err, c1) \<Rightarrow> (Done (x0, Some err), c1)
      | (Inr cn, c1) \<Rightarrow>
          (case fn cn c1 of
             (Panic, cn', c2) \<Rightarrow> (Panic, condRelease None cn' c2)
           | (Done (x, err), cn', c2) \<Rightarrow> (Done (x, err), condRelease err cn' c2)))"

text \<open>\<open>withKeyAddr\<close>\<close>

definition withKeyAddr ::
  "world \<Rightarrow> bytes \<Rightarrow> 'x \<Rightarrow> (Addr \<Rightarrow> client \<Rightarrow> ('x \<times> error option) outcome \<times> client)
     \<Rightarrow> client \<Rightarrow> ('x \<times> error option) outcome \<times> client" where
  "withKeyAddr w key x0 fn c =
     (if legalKey key then
        (let c1 = c\<lparr>trace := trace c @ [EvPickServer key]\<rparr>
         in case PickServer w key of
              Inl err \<Rightarrow> (Done (x0, Some err), c1)
            | Inr a \<Rightarrow> fn a c1)
      else (Done (x0, Some ErrMalformedKey), c))"

text \<open>\<open>withKeyRw\<close>\<close>

definition withKeyRw ::
  "world \<Rightarrow> bytes \<Rightarrow> 'x \<Rightarrow> (conn \<Rightarrow> client \<Rightarrow> ('x \<times> error option) outcome \<times> conn \<times> client)
     \<Rightarrow> client \<Rightarrow> ('x \<times> error option) outcome \<times> client" where
  "withKeyRw w key x0 fn c = withKeyAddr w key x0 (\<lambda>a. withAddrRw w a x0 fn) c"

text \<open>
  \<open>onItem\<close>: the selector and \<open>getConn\<close> come first, then \<open>fn\<close>, and the
  deferred \<open>condRelease\<close> sees the error of \<open>fn\<close>.
\<close>

definition onItem ::
  "world \<Rightarrow> Item \<Rightarrow> (conn \<Rightarrow> Item \<Rightarrow> client \<Rightarrow> error option \<times> conn \<times> client)
     \<Rightarrow> client \<Rightarrow> error option \<times> client" where
  "onItem w item fn c =
     (let c1 = c\<lparr>trace := trace c @ [EvPickServer (Key item)]\<rparr>
      in case PickServer w (Key item) of
           Inl err \<Rightarrow> (Some err, c1)
         | Inr a \<Rightarrow>
             (case getConn w a c1 of
                (Inl err, c2) \<Rightarrow> (Some err, c2)
              | (Inr cn, c2) \<Rightarrow>
                  (case fn cn item c2 of
                     (err, cn', c3) \<Rightarrow> (err, condRelease err cn' c3))))"

subsection \<open>Retrieval\<close>

text \<open>
  \<open>scanGetResponseLine\<close>: the pattern has three destinations when the line has
  exactly three spaces, and then the cas id keeps the zero of the new item.
\<close>

definition scanGetResponseLine :: "world \<Rightarrow> bytes \<Rightarrow> error + (Item \<times> 64 word)" where
  "scanGetResponseLine w line =
     (let n = (if count_list line (CHR '' '') = 3 then 3 else 4 :: nat)
      in case Sscanf w line n of
           None \<Rightarrow> Inl (Errorf ''memcache: unexpected line in get response: %q'' [line])
         | Some (k, f, sz, cas) \<Rightarrow>
             Inr (\<lparr>Key = k, Value = [], Flags = f, Expiration = 0,
                   casid = (if n = 3 then 0 else cas)\<rparr>, sz))"

text \<open>
  One turn of the loop of \<open>parseGetResponse\<close>, up to the call of \<open>cb\<close>: it stops
  with the error to return (\<open>None\<close> after \<open>END\<close>), panics in the slice expression,
  or has an item for \<open>cb\<close>. The limit is \<open>int64(size)+2\<close>, which wraps around.
\<close>

datatype step = Stop "error option" | Fault | Emit Item

definition parseItem :: "world \<Rightarrow> reader \<Rightarrow> step \<times> reader" where
  "parseItem w r =
     (case ReadSlice r of
        (Inl err, r1) \<Rightarrow> (Stop (Some err), r1)
      | (Inr line, r1) \<Rightarrow>
          if line = resultEnd then (Stop None, r1)
          else
            (case scanGetResponseLine w line of
               Inl err \<Rightarrow> (Stop (Some err), r1)
             | Inr (it, sz) \<Rightarrow>
                 (case ReadAllLimit r1 (sint (sz + 2)) of
                    (Inl err, r2) \<Rightarrow> (Stop (Some err), r2)
                  | (Inr v, r2) \<Rightarrow>
                      if HasSuffix v crlf then
                        (case reslice w v (sint sz) of
                           None \<Rightarrow> (Fault, r2)
                         | Some v' \<Rightarrow> (Emit (it\<lparr>Value := v'\<rparr>), r2))
                      else (Stop (Some (Errorf ''memcache: corrupt get result read'' [])), r2))))"

text \<open>
  \<open>parseGetResponse\<close>: \<open>x\<close> is the state that the callback \<open>cb\<close> updates.
  The loop ends because every turn that goes on has taken a line from the reader.
\<close>

function parseGetResponse ::
  "world \<Rightarrow> reader \<Rightarrow> (Item \<Rightarrow> 'x \<Rightarrow> 'x) \<Rightarrow> 'x \<Rightarrow> ('x \<times> error option) outcome \<times> reader" where
  "parseGetResponse w r cb x =
     (case parseItem w r of
        (Stop err, r') \<Rightarrow> (Done (x, err), r')
      | (Fault, r') \<Rightarrow> (Panic, r')
      | (Emit it, r') \<Rightarrow> parseGetResponse w r' cb (cb it x))"
  by pat_completeness auto
termination
proof (relation "measure (\<lambda>(w, r, cb, x). length (fst r))")
  show "wf (measure (\<lambda>(w :: world, r :: reader, cb :: Item \<Rightarrow> 'x \<Rightarrow> 'x, x :: 'x). length (fst r)))"
    by simp
next
  fix w :: world and r :: reader and cb :: "Item \<Rightarrow> 'x \<Rightarrow> 'x" and x :: 'x
    and s :: step and r' :: reader and it :: Item
  assume "(s, r') = parseItem w r" and "s = Emit it"
  then have "parseItem w r = (Emit it, r')"
    by simp
  then have "length (fst r') < length (fst r)"
    by (auto simp: parseItem_def ReadSlice_def ReadAllLimit_def Let_def
        split: prod.splits sum.splits if_splits option.splits)
  then show "((w, r', cb, cb it x), (w, r, cb, x)) \<in> measure (\<lambda>(w, r, cb, x). length (fst r))"
    by simp
qed

declare parseGetResponse.simps [simp del]

text \<open>\<open>getFromAddr\<close>\<close>

definition getFromAddr ::
  "world \<Rightarrow> Addr \<Rightarrow> bytes list \<Rightarrow> (Item \<Rightarrow> 'x \<Rightarrow> 'x) \<Rightarrow> 'x \<Rightarrow> client
     \<Rightarrow> ('x \<times> error option) outcome \<times> client" where
  "getFromAddr w a keys cb x0 c =
     withAddrRw w a x0
       (\<lambda>cn c1.
          case writeFlush w cn (''gets '' @ Join keys '' '' @ crlf) c1 of
            (Inl err, c2) \<Rightarrow> (Done (x0, Some err), cn, c2)
          | (Inr r, c2) \<Rightarrow>
              (case parseGetResponse w r cb x0 of
                 (res, r') \<Rightarrow> (res, cn\<lparr>rbuf := fst r'\<rparr>, c2)))
       c"

text \<open>\<open>Get\<close>: the callback stores the item in \<open>item\<close>.\<close>

definition Get :: "world \<Rightarrow> bytes \<Rightarrow> client \<Rightarrow> (Item option \<times> error option) outcome \<times> client" where
  "Get w key c =
     (case withKeyAddr w key None (\<lambda>a. getFromAddr w a [key] (\<lambda>it item. Some it) None) c of
        (Panic, c') \<Rightarrow> (Panic, c')
      | (Done (item, err), c') \<Rightarrow>
          (Done (item, if err = None \<and> item = None then Some ErrCacheMiss else err), c'))"

text \<open>
  \<open>GetMulti\<close>. \<open>keyMap\<close> is a list of buckets in the order in which their
  addresses first appear. The first loop validates each key and asks the selector,
  and returns a nil map at the first failure.
\<close>

type_synonym keyMap = "(Addr \<times> bytes list) list"

fun keyMap_append :: "keyMap \<Rightarrow> Addr \<Rightarrow> bytes \<Rightarrow> keyMap" where
  "keyMap_append [] a key = [(a, [key])]"
| "keyMap_append ((b, ks) # km) a key =
     (if b = a then (b, ks @ [key]) # km else (b, ks) # keyMap_append km a key)"

fun GetMulti_partition :: "world \<Rightarrow> bytes list \<Rightarrow> keyMap \<Rightarrow> client \<Rightarrow> (error + keyMap) \<times> client" where
  "GetMulti_partition w [] km c = (Inr km, c)"
| "GetMulti_partition w (key # keys) km c =
     (if legalKey key then
        (let c1 = c\<lparr>trace := trace c @ [EvPickServer key]\<rparr>
         in case PickServer w key of
              Inl err \<Rightarrow> (Inl err, c1)
            | Inr a \<Rightarrow> GetMulti_partition w keys (keyMap_append km a key) c1)
      else (Inl ErrMalformedKey, c))"

text \<open>
  The goroutines, one for each bucket, and the loop that receives their errors and
  keeps the last one that is not nil. The model runs the goroutines one after the
  other, in the order of the buckets; a panic in one of them ends the program.
\<close>

fun GetMulti_tasks ::
  "world \<Rightarrow> keyMap \<Rightarrow> (Item \<Rightarrow> 'x \<Rightarrow> 'x) \<Rightarrow> 'x \<Rightarrow> error option \<Rightarrow> client
     \<Rightarrow> ('x \<times> error option) outcome \<times> client" where
  "GetMulti_tasks w [] cb x err c = (Done (x, err), c)"
| "GetMulti_tasks w ((a, keys) # km) cb x err c =
     (case getFromAddr w a keys cb x c of
        (Panic, c') \<Rightarrow> (Panic, c')
      | (Done (x', ge), c') \<Rightarrow>
          GetMulti_tasks w km cb x' (case ge of None \<Rightarrow> err | Some e \<Rightarrow> Some e) c')"

definition addItemToMap :: "Item \<Rightarrow> (bytes \<rightharpoonup> Item) \<Rightarrow> (bytes \<rightharpoonup> Item)" where
  "addItemToMap it m = m(Key it \<mapsto> it)"

definition GetMulti ::
  "world \<Rightarrow> bytes list \<Rightarrow> client \<Rightarrow> ((bytes \<rightharpoonup> Item) option \<times> error option) outcome \<times> client" where
  "GetMulti w keys c =
     (case GetMulti_partition w keys [] c of
        (Inl err, c1) \<Rightarrow> (Done (None, Some err), c1)
      | (Inr km, c1) \<Rightarrow>
          (case GetMulti_tasks w km addItemToMap Map.empty None c1 of
             (Panic, c2) \<Rightarrow> (Panic, c2)
           | (Done (m, err), c2) \<Rightarrow> (Done (Some m, err), c2)))"

text \<open>
  The items a run hands to its callback are those it hands to the callback
  \<open>collect\<close>, which appends them to a list. \<open>deliver cb x0 its\<close> is the state of
  a callback \<open>cb\<close> that started in \<open>x0\<close> and was called on \<open>its\<close> in order.
\<close>

definition collect :: "Item \<Rightarrow> Item list \<Rightarrow> Item list" where
  "collect it its = its @ [it]"

definition deliver :: "(Item \<Rightarrow> 'x \<Rightarrow> 'x) \<Rightarrow> 'x \<Rightarrow> Item list \<Rightarrow> 'x" where
  "deliver cb x0 its = foldl (\<lambda>x it. cb it x) x0 its"

subsection \<open>Storing\<close>

text \<open>
  \<open>storeRequest\<close> is what \<open>populateOne\<close> writes before it flushes: the
  header line of the verb, the value and \<open>\r\n\<close>.
  \<open>populateOne\<close>, and the methods \<open>set\<close>, \<open>add\<close> and \<open>cas\<close> (here
  \<open>set_fn\<close>, \<open>add_fn\<close>, \<open>cas_fn\<close>) that call it with their verb.
\<close>

definition storeRequest :: "bytes \<Rightarrow> Item \<Rightarrow> bytes" where
  "storeRequest verb item =
     (if verb = ''cas''
        then verb @ '' '' @ Key item @ '' '' @ itoa (unat (Flags item)) @ '' ''
          @ sitoa (sint (Expiration item)) @ '' '' @ itoa (length (Value item))
          @ '' '' @ itoa (unat (casid item)) @ crlf
      else verb @ '' '' @ Key item @ '' '' @ itoa (unat (Flags item)) @ '' ''
          @ sitoa (sint (Expiration item)) @ '' '' @ itoa (length (Value item)) @ crlf)
     @ Value item @ crlf"

definition populateOne ::
  "world \<Rightarrow> conn \<Rightarrow> bytes \<Rightarrow> Item \<Rightarrow> client \<Rightarrow> error option \<times> conn \<times> client" where
  "populateOne w cn verb item c =
     (if legalKey (Key item) then
        (case writeFlush w cn (storeRequest verb item) c of
           (Inl err, c1) \<Rightarrow> (Some err, cn, c1)
         | (Inr r, c1) \<Rightarrow>
             (case ReadSlice r of
                (Inl err, r1) \<Rightarrow> (Some err, cn\<lparr>rbuf := fst r1\<rparr>, c1)
              | (Inr line, r1) \<Rightarrow>
                  (if line = resultStored then None
                   else if line = resultNotStored then Some ErrNotStored
                   else if line = resultExists then Some ErrCASConflict
                   else if line = resultNotFound then Some ErrCacheMiss
                   else Some (Errorf ''memcache: unexpected response line from %q: %q''
                                [verb, line]),
                   cn\<lparr>rbuf := fst r1\<rparr>, c1)))
      else (Some ErrMalformedKey, cn, c))"

definition set_fn :: "world \<Rightarrow> conn \<Rightarrow> Item \<Rightarrow> client \<Rightarrow> error option \<times> conn \<times> client" where
  "set_fn w cn item c = populateOne w cn ''set'' item c"

definition add_fn :: "world \<Rightarrow> conn \<Rightarrow> Item \<Rightarrow> client \<Rightarrow> error option \<times> conn \<times> client" where
  "add_fn w cn item c = populateOne w cn ''add'' item c"

definition cas_fn :: "world \<Rightarrow> conn \<Rightarrow> Item \<Rightarrow> client \<Rightarrow> error option \<times> conn \<times> client" where
  "cas_fn w cn item c = populateOne w cn ''cas'' item c"

definition Set :: "world \<Rightarrow> Item \<Rightarrow> client \<Rightarrow> error option \<times> client" where
  "Set w item c = onItem w item (set_fn w) c"

definition Add :: "world \<Rightarrow> Item \<Rightarrow> client \<Rightarrow> error option \<times> client" where
  "Add w item c = onItem w item (add_fn w) c"

definition CompareAndSwap :: "world \<Rightarrow> Item \<Rightarrow> client \<Rightarrow> error option \<times> client" where
  "CompareAndSwap w item c = onItem w item (cas_fn w) c"

subsection \<open>Deleting and counting\<close>

text \<open>\<open>writeReadLine\<close>: \<open>req\<close> is the formatted request.\<close>

definition writeReadLine ::
  "world \<Rightarrow> conn \<Rightarrow> bytes \<Rightarrow> client \<Rightarrow> (error + bytes) \<times> conn \<times> client" where
  "writeReadLine w cn req c =
     (case writeFlush w cn req c of
        (Inl err, c1) \<Rightarrow> (Inl err, cn, c1)
      | (Inr r, c1) \<Rightarrow>
          (case ReadSlice r of
             (Inl err, r1) \<Rightarrow> (Inl err, cn\<lparr>rbuf := fst r1\<rparr>, c1)
           | (Inr line, r1) \<Rightarrow> (Inr line, cn\<lparr>rbuf := fst r1\<rparr>, c1)))"

text \<open>\<open>writeExpectf\<close>\<close>

definition writeExpectf ::
  "world \<Rightarrow> conn \<Rightarrow> bytes \<Rightarrow> bytes \<Rightarrow> client \<Rightarrow> error option \<times> conn \<times> client" where
  "writeExpectf w cn expect req c =
     (case writeReadLine w cn req c of
        (Inl err, cn1, c1) \<Rightarrow> (Some err, cn1, c1)
      | (Inr line, cn1, c1) \<Rightarrow>
          (if line = expect then None
           else if line = resultNotStored then Some ErrNotStored
           else if line = resultExists then Some ErrCASConflict
           else if line = resultNotFound then Some ErrCacheMiss
           else Some (Errorf ''memcache: unexpected response line: %q'' [line]),
           cn1, c1))"

text \<open>\<open>Delete\<close>\<close>

definition Delete :: "world \<Rightarrow> bytes \<Rightarrow> client \<Rightarrow> (unit \<times> error option) outcome \<times> client" where
  "Delete w key c =
     withKeyRw w key ()
       (\<lambda>cn c1.
          case writeExpectf w cn resultDeleted (''delete '' @ key @ crlf) c1 of
            (err, cn1, c2) \<Rightarrow> (Done ((), err), cn1, c2))
       c"

text \<open>
  \<open>incrDecr\<close>: the closure assigns \<open>val\<close>. The two slice expressions on the line
  panic when their upper bound \<open>len(line)-2\<close> is below their lower bound.
\<close>

definition incrDecr ::
  "world \<Rightarrow> bytes \<Rightarrow> bytes \<Rightarrow> 64 word \<Rightarrow> client \<Rightarrow> (64 word \<times> error option) outcome \<times> client" where
  "incrDecr w verb key delta c =
     withKeyRw w key 0
       (\<lambda>cn c1.
          case writeReadLine w cn (verb @ '' '' @ key @ '' '' @ itoa (unat delta) @ crlf) c1 of
            (Inl err, cn1, c2) \<Rightarrow> (Done (0, Some err), cn1, c2)
          | (Inr line, cn1, c2) \<Rightarrow>
              if line = resultNotFound then (Done (0, Some ErrCacheMiss), cn1, c2)
              else if HasPrefix line resultClientErrorPrefix then
                (if int (length line) - 2 < int (length resultClientErrorPrefix)
                   then (Panic, cn1, c2)
                 else (Done (0, Some (ErrorsNew (''memcache: client error: ''
                         @ drop (length resultClientErrorPrefix) (take (length line - 2) line)))),
                       cn1, c2))
              else if int (length line) - 2 < 0 then (Panic, cn1, c2)
              else (Done (ParseUint (take (length line - 2) line)), cn1, c2))
       c"

definition Increment ::
  "world \<Rightarrow> bytes \<Rightarrow> 64 word \<Rightarrow> client \<Rightarrow> (64 word \<times> error option) outcome \<times> client" where
  "Increment w key delta c = incrDecr w ''incr'' key delta c"

definition Decrement ::
  "world \<Rightarrow> bytes \<Rightarrow> 64 word \<Rightarrow> client \<Rightarrow> (64 word \<times> error option) outcome \<times> client" where
  "Decrement w key delta c = incrDecr w ''decr'' key delta c"

subsection \<open>States of the pool\<close>

text \<open>
  \<open>putFreeConn\<close> and \<open>getFreeConn\<close> are the only functions that touch
  \<open>freeconn\<close>, and each runs under the lock. Whatever the operations in flight
  and however they interleave, the client goes from its first state through calls of
  these two, with any arguments, and steps that leave \<open>freeconn\<close> alone.
\<close>

inductive pool_reachable :: "client \<Rightarrow> bool" where
  pool_new: "pool_reachable newClient"
| pool_put: "pool_reachable c \<Longrightarrow> pool_reachable (putFreeConn a cn c)"
| pool_get: "pool_reachable c \<Longrightarrow> pool_reachable (snd (getFreeConn a c))"
| pool_other: "pool_reachable c \<Longrightarrow> freeconn c' = freeconn c \<Longrightarrow> pool_reachable c'"

subsection \<open>A world for the examples\<close>

text \<open>
  One server; every dial connects at once, every send succeeds, and the server answers
  every request with \<open>reply\<close> and then closes the connection. \<open>exSscanf\<close>
  scans the header lines of the examples as \<open>fmt.Sscanf\<close> does. \<open>exSpare\<close>
  is the array behind a slice of at most 512 bytes as \<open>ReadAll\<close> leaves it: a
  capacity of 512 bytes, zero beyond what was read. The examples read 3 and 4 bytes.
  For a longer slice, whose capacity depends on how \<open>append\<close> grows it,
  \<open>exSpare\<close> gives none of the slack that \<open>ReadAll\<close> leaves, and nothing
  below relies on it there.
\<close>

definition exAddr :: Addr where
  "exAddr = Addr 0 ''tcp'' ''127.0.0.1:11211''"

definition exSscanf :: "bytes \<Rightarrow> nat \<Rightarrow> (bytes \<times> 32 word \<times> 64 word \<times> 64 word) option" where
  "exSscanf line n =
     (if line = ''VALUE a 0 1 7'' @ crlf \<and> n = 4 then Some (''a'', 0, 1, 7)
      else if line = ''VALUE k 0 2 7'' @ crlf \<and> n = 4 then Some (''k'', 0, 2, 7)
      else if line = ''VALUE k 0 10 7'' @ crlf \<and> n = 4 then Some (''k'', 0, 10, 7)
      else if line = ''VALUE k 0 100000 7'' @ crlf \<and> n = 4 then Some (''k'', 0, 100000, 7)
      else None)"

definition exSpare :: "bytes \<Rightarrow> bytes" where
  "exSpare v = replicate (512 - length v) (CHR 0x00)"

definition exWorld :: "bytes \<Rightarrow> world" where
  "exWorld reply =
     \<lparr>PickServer = (\<lambda>key. Inr exAddr),
      netDial = (\<lambda>a n. (False, None)),
      netSend = (\<lambda>n req. None),
      netReply = (\<lambda>n req. (reply, EOF)),
      Sscanf = exSscanf,
      spare = exSpare\<rparr>"

text \<open>A response cut short: a header that declares \<open>n\<close> bytes, then \<open>ab\r\n\<close>.\<close>

definition exTruncated :: "bytes \<Rightarrow> bytes" where
  "exTruncated n = ''VALUE k 0 '' @ n @ '' 7'' @ crlf @ ''ab'' @ crlf"

text \<open>A response with one value and then a line that is no header, and the item in it.\<close>

definition exPartial :: bytes where
  "exPartial = ''VALUE a 0 1 7'' @ crlf @ ''x'' @ crlf @ ''oops'' @ crlf"

definition exItemA :: Item where
  "exItemA = \<lparr>Key = ''a'', Value = ''x'', Flags = 0, Expiration = 0, casid = 7\<rparr>"

definition exItem :: "bytes \<Rightarrow> Item" where
  "exItem key = \<lparr>Key = key, Value = ''bar'', Flags = 7, Expiration = 0, casid = 0\<rparr>"

definition exConn :: "nat \<Rightarrow> conn" where
  "exConn n = \<lparr>nc = n, addr = exAddr, rbuf = []\<rparr>"

section \<open>Properties\<close>

subsection \<open>The key validator\<close>

lemma legalKey_loop_iff:
  "legalKey_loop k \<longleftrightarrow> (\<forall>b \<in> set k. 0x20 < (of_char b :: nat) \<and> (of_char b :: nat) \<le> 0x7e)"
  by (induction k) auto

text \<open>
  C3, as the code has it: \<open>legalKey\<close> accepts exactly the keys of at most 250 bytes
  whose bytes all lie in \<open>0x21..0x7e\<close>. There is no lower bound on the length.
\<close>

theorem legalKey_iff:
  "legalKey k \<longleftrightarrow>
     length k \<le> 250 \<and> (\<forall>b \<in> set k. 0x20 < (of_char b :: nat) \<and> (of_char b :: nat) \<le> 0x7e)"
  by (auto simp: legalKey_def legalKey_loop_iff)

theorem legalKey_iff_witness:
  "legalKey ''foo'' \<and> \<not> legalKey ''key with space'' \<and> legalKey []"
  using legalKey_iff [of "''foo''"] legalKey_iff [of "''key with space''"] legalKey_iff [of "[]"]
  by simp

text \<open>
  C3 as the specification states it fails at the empty key, which \<open>legalKey\<close>
  accepts although its length is not at least 1.
\<close>

theorem legalKey_empty_counterexample:
  "\<not> (legalKey [] \<longleftrightarrow>
        1 \<le> length ([] :: bytes) \<and> length ([] :: bytes) \<le> 250
        \<and> (\<forall>b \<in> set ([] :: bytes). 0x20 < (of_char b :: nat) \<and> (of_char b :: nat) \<le> 0x7e))"
  by (simp add: legalKey_def)

subsection \<open>The pool of idle connections\<close>

lemma freelist_of_putFreeConn:
  "freelist_of (putFreeConn a cn c) s =
     (if s = String a \<and> length (freelist_of c s) < maxIdleConnsPerAddr
      then freelist_of c s @ [cn] else freelist_of c s)"
  by (auto simp: putFreeConn_def freelist_of_def closeConn_def Let_def split: option.splits)

lemma trace_putFreeConn:
  "trace (putFreeConn a cn c) =
     (if length (freelist_of c (String a)) < maxIdleConnsPerAddr then trace c
      else trace c @ [EvClose (nc cn)])"
  by (auto simp: putFreeConn_def freelist_of_def closeConn_def Let_def split: option.splits)

lemma fst_getFreeConn:
  "fst (getFreeConn a c) =
     (if freelist_of c (String a) = [] then None else Some (last (freelist_of c (String a))))"
  by (auto simp: getFreeConn_def freelist_of_def last_conv_nth split: option.splits)

lemma freelist_of_getFreeConn:
  "freelist_of (snd (getFreeConn a c)) s =
     (if s = String a then butlast (freelist_of c s) else freelist_of c s)"
  by (auto simp: getFreeConn_def freelist_of_def butlast_conv_take split: option.splits)

lemma trace_getFreeConn: "trace (snd (getFreeConn a c)) = trace c"
  by (auto simp: getFreeConn_def split: option.splits)

lemma freelist_of_cong: "freeconn c' = freeconn c \<Longrightarrow> freelist_of c' s = freelist_of c s"
  by (simp add: freelist_of_def)

lemma freelist_of_newClient: "freelist_of newClient s = []"
  by (simp add: newClient_def freelist_of_def)

lemma trace_newClient: "trace newClient = []"
  by (simp add: newClient_def)

lemma getConn_pooled:
  "fst (getFreeConn a c) = Some cn \<Longrightarrow>
     getConn w a c = (Inr cn, extendDeadline cn (snd (getFreeConn a c)))"
  by (cases "getFreeConn a c") (simp add: getConn_def)

lemma freelist_of_closeConn: "freelist_of (closeConn cn c) s = freelist_of c s"
  by (simp add: closeConn_def freelist_of_def)

lemma trace_closeConn: "trace (closeConn cn c) = trace c @ [EvClose (nc cn)]"
  by (simp add: closeConn_def)

lemma pool_reachable_bound:
  "pool_reachable c \<Longrightarrow> length (freelist_of c s) \<le> maxIdleConnsPerAddr"
proof (induction arbitrary: s rule: pool_reachable.induct)
  case pool_new
  then show ?case by (simp add: freelist_of_newClient)
next
  case (pool_put c a cn)
  from pool_put.IH [of s] show ?case
    by (auto simp: freelist_of_putFreeConn)
next
  case (pool_get c a)
  from pool_get.IH [of s] show ?case
    by (auto simp: freelist_of_getFreeConn)
next
  case (pool_other c c')
  from pool_other.IH [of s] show ?case
    by (simp only: freelist_of_cong [OF pool_other.hyps(2)])
qed

text \<open>
  Every public operation takes a state of the pool to a state of the pool, in every
  world: it reaches \<open>freeconn\<close> through \<open>getFreeConn\<close> and
  \<open>putFreeConn\<close> only.
\<close>

lemma pool_reachable_getConn:
  assumes "pool_reachable c"
  shows "pool_reachable (snd (getConn w a c))"
proof -
  have g: "pool_reachable (snd (getFreeConn a c))"
    using assms by (rule pool_get)
  have "freeconn (snd (getConn w a c)) = freeconn (snd (getFreeConn a c))"
    by (auto simp: getConn_def dial_def extendDeadline_def Let_def
        split: prod.splits option.splits sum.splits bool.splits)
  with g show ?thesis
    by (rule pool_other)
qed

lemma pool_reachable_condRelease:
  assumes "pool_reachable c"
  shows "pool_reachable (condRelease err cn c)"
proof (cases "condRelease err cn c = release cn c")
  case True
  then show ?thesis
    using assms by (simp add: release_def pool_put)
next
  case False
  then have "freeconn (condRelease err cn c) = freeconn c"
    by (auto simp: condRelease_def closeConn_def split: option.splits if_splits)
  with assms show ?thesis
    by (rule pool_other)
qed

lemma pool_reachable_writeFlush:
  assumes "pool_reachable c"
  shows "pool_reachable (snd (writeFlush w cn req c))"
proof -
  have "freeconn (snd (writeFlush w cn req c)) = freeconn c"
    by (simp add: writeFlush_def Let_def split: option.splits)
  with assms show ?thesis
    by (rule pool_other)
qed

lemma pool_reachable_withAddrRw:
  assumes "pool_reachable c"
    and "\<And>cn c1. pool_reachable c1 \<Longrightarrow> pool_reachable (snd (snd (fn cn c1)))"
  shows "pool_reachable (snd (withAddrRw w a x0 fn c))"
proof (cases "getConn w a c")
  case (Pair g c1)
  then have r1: "pool_reachable c1"
    using pool_reachable_getConn [OF assms(1), of w a] by simp
  show ?thesis
  proof (cases g)
    case (Inl err)
    with Pair r1 show ?thesis
      by (simp add: withAddrRw_def)
  next
    case (Inr cn)
    obtain res cn' c2 where f: "fn cn c1 = (res, cn', c2)"
      by (cases "fn cn c1")
    then have "pool_reachable c2"
      using assms(2) [OF r1, of cn] by simp
    then show ?thesis
      using Pair Inr f
      by (cases res) (auto simp: withAddrRw_def pool_reachable_condRelease)
  qed
qed

lemma pool_reachable_withKeyAddr:
  assumes "pool_reachable c"
    and "\<And>a c1. pool_reachable c1 \<Longrightarrow> pool_reachable (snd (fn a c1))"
  shows "pool_reachable (snd (withKeyAddr w key x0 fn c))"
proof -
  have "pool_reachable (c\<lparr>trace := trace c @ [EvPickServer key]\<rparr>)"
    using assms(1) by (rule pool_other) simp
  then show ?thesis
    using assms by (auto simp: withKeyAddr_def Let_def split: sum.splits)
qed

lemma pool_reachable_getFromAddr:
  assumes "pool_reachable c"
  shows "pool_reachable (snd (getFromAddr w a keys cb x0 c))"
  unfolding getFromAddr_def
proof (rule pool_reachable_withAddrRw [OF assms])
  fix cn c1
  assume "pool_reachable c1"
  then show "pool_reachable (snd (snd (case writeFlush w cn (''gets '' @ Join keys '' '' @ crlf) c1 of
            (Inl err, c2) \<Rightarrow> (Done (x0, Some err), cn, c2)
          | (Inr r, c2) \<Rightarrow>
              (case parseGetResponse w r cb x0 of
                 (res, r') \<Rightarrow> (res, cn\<lparr>rbuf := fst r'\<rparr>, c2)))))"
    using pool_reachable_writeFlush [of c1 w cn "''gets '' @ Join keys '' '' @ crlf"]
    by (auto split: prod.splits sum.splits)
qed

lemma pool_reachable_Get:
  assumes "pool_reachable c"
  shows "pool_reachable (snd (Get w key c))"
proof -
  have "pool_reachable (snd (withKeyAddr w key None
      (\<lambda>a. getFromAddr w a [key] (\<lambda>it item. Some it) None) c))"
    by (rule pool_reachable_withKeyAddr [OF assms]) (rule pool_reachable_getFromAddr)
  then show ?thesis
    by (auto simp: Get_def split: prod.splits outcome.splits)
qed

lemma pool_reachable_GetMulti_tasks:
  "pool_reachable c \<Longrightarrow> pool_reachable (snd (GetMulti_tasks w km cb x err c))"
proof (induction km arbitrary: x err c)
  case Nil
  then show ?case by simp
next
  case (Cons b km)
  obtain a keys where b: "b = (a, keys)"
    by (cases b)
  obtain res c' where g: "getFromAddr w a keys cb x c = (res, c')"
    by (cases "getFromAddr w a keys cb x c")
  then have r: "pool_reachable c'"
    using pool_reachable_getFromAddr [OF Cons.prems, of w a keys cb x] by simp
  show ?case
  proof (cases res)
    case Panic
    with b g r show ?thesis by simp
  next
    case (Done y)
    with b g Cons.IH [OF r] show ?thesis
      by (cases y) simp
  qed
qed

lemma pool_reachable_GetMulti_partition:
  "pool_reachable c \<Longrightarrow> pool_reachable (snd (GetMulti_partition w keys km c))"
proof (induction keys arbitrary: km c)
  case Nil
  then show ?case by simp
next
  case (Cons key keys)
  have "pool_reachable (c\<lparr>trace := trace c @ [EvPickServer key]\<rparr>)"
    using Cons.prems by (rule pool_other) simp
  with Cons show ?case
    by (auto simp: Let_def split: sum.splits)
qed

lemma pool_reachable_GetMulti:
  assumes "pool_reachable c"
  shows "pool_reachable (snd (GetMulti w keys c))"
proof -
  obtain p c1 where p: "GetMulti_partition w keys [] c = (p, c1)"
    by (cases "GetMulti_partition w keys [] c")
  then have r: "pool_reachable c1"
    using pool_reachable_GetMulti_partition [OF assms, of w keys "[]"] by simp
  show ?thesis
  proof (cases p)
    case (Inl e)
    with p r show ?thesis
      by (simp add: GetMulti_def)
  next
    case (Inr km)
    with p pool_reachable_GetMulti_tasks [OF r, of w km addItemToMap Map.empty None]
    show ?thesis
      by (auto simp: GetMulti_def split: prod.splits outcome.splits)
  qed
qed

lemma pool_reachable_populateOne:
  assumes "pool_reachable c"
  shows "pool_reachable (snd (snd (populateOne w cn verb item c)))"
  using pool_reachable_writeFlush [OF assms, of w cn "storeRequest verb item"] assms
  by (auto simp: populateOne_def split: prod.splits sum.splits)

lemma pool_reachable_onItem:
  assumes "pool_reachable c"
    and "\<And>cn c1. pool_reachable c1 \<Longrightarrow> pool_reachable (snd (snd (fn cn item c1)))"
  shows "pool_reachable (snd (onItem w item fn c))"
proof -
  have r0: "pool_reachable (c\<lparr>trace := trace c @ [EvPickServer (Key item)]\<rparr>)"
    using assms(1) by (rule pool_other) simp
  show ?thesis
  proof (cases "PickServer w (Key item)")
    case (Inl e)
    with r0 show ?thesis
      by (simp add: onItem_def Let_def)
  next
    case (Inr a)
    obtain g c2 where g: "getConn w a (c\<lparr>trace := trace c @ [EvPickServer (Key item)]\<rparr>) = (g, c2)"
      by (cases "getConn w a (c\<lparr>trace := trace c @ [EvPickServer (Key item)]\<rparr>)")
    then have r2: "pool_reachable c2"
      using pool_reachable_getConn [OF r0, of w a] by simp
    show ?thesis
    proof (cases g)
      case (Inl e)
      with Inr g r2 show ?thesis
        by (simp add: onItem_def Let_def)
    next
      case (Inr cn)
      obtain err cn' c3 where f: "fn cn item c2 = (err, cn', c3)"
        by (cases "fn cn item c2")
      then have "pool_reachable c3"
        using assms(2) [OF r2, of cn] by simp
      with \<open>PickServer w (Key item) = Inr a\<close> g Inr f show ?thesis
        by (simp add: onItem_def Let_def pool_reachable_condRelease)
    qed
  qed
qed

lemma pool_reachable_store:
  assumes "pool_reachable c"
  shows "pool_reachable (snd (Set w item c))"
    and "pool_reachable (snd (Add w item c))"
    and "pool_reachable (snd (CompareAndSwap w item c))"
  unfolding Set_def Add_def CompareAndSwap_def set_fn_def [abs_def] add_fn_def [abs_def]
    cas_fn_def [abs_def]
  by (rule pool_reachable_onItem [OF assms], rule pool_reachable_populateOne, assumption)+

lemma pool_reachable_writeReadLine:
  assumes "pool_reachable c"
  shows "pool_reachable (snd (snd (writeReadLine w cn req c)))"
  using pool_reachable_writeFlush [OF assms, of w cn req]
  by (auto simp: writeReadLine_def split: prod.splits sum.splits)

lemma pool_reachable_Delete:
  assumes "pool_reachable c"
  shows "pool_reachable (snd (Delete w key c))"
  unfolding Delete_def withKeyRw_def
proof (rule pool_reachable_withKeyAddr [OF assms], rule pool_reachable_withAddrRw, assumption)
  fix a :: Addr and c1 cn c1a
  assume "pool_reachable c1a"
  from pool_reachable_writeReadLine [OF this, of w cn "''delete '' @ key @ crlf"]
  show "pool_reachable (snd (snd (case writeExpectf w cn resultDeleted (''delete '' @ key @ crlf) c1a of
            (err, cn1, c2) \<Rightarrow> (Done ((), err), cn1, c2))))"
    by (auto simp: writeExpectf_def split: prod.splits sum.splits)
qed

lemma pool_reachable_incrDecr:
  assumes "pool_reachable c"
  shows "pool_reachable (snd (incrDecr w verb key delta c))"
  unfolding incrDecr_def withKeyRw_def
proof (rule pool_reachable_withKeyAddr [OF assms], rule pool_reachable_withAddrRw, assumption)
  fix a :: Addr and c1 cn c1a
  assume "pool_reachable c1a"
  from pool_reachable_writeReadLine [OF this, of w cn "verb @ '' '' @ key @ '' '' @ itoa (unat delta) @ crlf"]
  show "pool_reachable (snd (snd (case writeReadLine w cn (verb @ '' '' @ key @ '' '' @ itoa (unat delta) @ crlf) c1a of
            (Inl err, cn1, c2) \<Rightarrow> (Done (0, Some err), cn1, c2)
          | (Inr line, cn1, c2) \<Rightarrow>
              if line = resultNotFound then (Done (0, Some ErrCacheMiss), cn1, c2)
              else if HasPrefix line resultClientErrorPrefix then
                (if int (length line) - 2 < int (length resultClientErrorPrefix)
                   then (Panic, cn1, c2)
                 else (Done (0, Some (ErrorsNew (''memcache: client error: ''
                         @ drop (length resultClientErrorPrefix) (take (length line - 2) line)))),
                       cn1, c2))
              else if int (length line) - 2 < 0 then (Panic, cn1, c2)
              else (Done (ParseUint (take (length line - 2) line)), cn1, c2))))"
    by (auto split: prod.splits sum.splits)
qed

lemma pool_reachable_Increment:
  "pool_reachable c \<Longrightarrow> pool_reachable (snd (Increment w key delta c))"
  by (simp add: Increment_def pool_reachable_incrDecr)

lemma pool_reachable_Decrement:
  "pool_reachable c \<Longrightarrow> pool_reachable (snd (Decrement w key delta c))"
  by (simp add: Decrement_def pool_reachable_incrDecr)

text \<open>
  C5: in every state of the pool (every state that calls of \<open>putFreeConn\<close> and
  \<open>getFreeConn\<close> in any order, and so the operations of the client, lead to) the
  idle list of an address holds at most 2 connections. \<open>putFreeConn\<close> appends
  the connection when the list of its address holds fewer than 2, and otherwise closes
  the transport and leaves the list as it was; the lists of the other addresses stay
  as they were.
\<close>

theorem putFreeConn_bound:
  assumes "pool_reachable c"
  shows "length (freelist_of c s) \<le> 2
    \<and> length (freelist_of (putFreeConn a cn c) s) \<le> 2
    \<and> (length (freelist_of c (String a)) < 2 \<longrightarrow>
         freelist_of (putFreeConn a cn c) (String a) = freelist_of c (String a) @ [cn]
         \<and> trace (putFreeConn a cn c) = trace c)
    \<and> (2 \<le> length (freelist_of c (String a)) \<longrightarrow>
         freelist_of (putFreeConn a cn c) (String a) = freelist_of c (String a)
         \<and> trace (putFreeConn a cn c) = trace c @ [EvClose (nc cn)])
    \<and> (s \<noteq> String a \<longrightarrow> freelist_of (putFreeConn a cn c) s = freelist_of c s)"
proof -
  have "pool_reachable (putFreeConn a cn c)"
    using assms by (rule pool_put)
  then have "length (freelist_of (putFreeConn a cn c) s) \<le> maxIdleConnsPerAddr"
    by (rule pool_reachable_bound)
  moreover have "length (freelist_of c s) \<le> maxIdleConnsPerAddr"
    using assms by (rule pool_reachable_bound)
  ultimately show ?thesis
    by (simp add: freelist_of_putFreeConn trace_putFreeConn maxIdleConnsPerAddr_def)
qed

lemma ex_full_pool:
  "freelist_of (putFreeConn exAddr (exConn 1) (putFreeConn exAddr (exConn 0) newClient))
     (String exAddr) = [exConn 0, exConn 1]"
  by (simp add: freelist_of_putFreeConn maxIdleConnsPerAddr_def freelist_of_newClient)

theorem putFreeConn_bound_witness:
  "pool_reachable (putFreeConn exAddr (exConn 1) (putFreeConn exAddr (exConn 0) newClient))
   \<and> freelist_of (putFreeConn exAddr (exConn 2)
        (putFreeConn exAddr (exConn 1) (putFreeConn exAddr (exConn 0) newClient)))
        (String exAddr) = [exConn 0, exConn 1]
   \<and> trace (putFreeConn exAddr (exConn 2)
        (putFreeConn exAddr (exConn 1) (putFreeConn exAddr (exConn 0) newClient)))
      = [EvClose 2]"
proof -
  have r: "pool_reachable (putFreeConn exAddr (exConn 1) (putFreeConn exAddr (exConn 0) newClient))"
    by (intro pool_put pool_new)
  show ?thesis
    using r putFreeConn_bound [OF r, of "String exAddr" exAddr "exConn 2"]
    by (simp add: ex_full_pool trace_putFreeConn maxIdleConnsPerAddr_def freelist_of_newClient
        trace_newClient freelist_of_putFreeConn exConn_def)
qed

text \<open>
  C8: the idle list is a stack. After \<open>c1\<close> and then \<open>c2\<close> are released to
  an address whose list has room for both, the list ends with \<open>c1, c2\<close>, the
  next \<open>getFreeConn\<close> and the next \<open>getConn\<close> for the address return
  \<open>c2\<close>, and the one after returns \<open>c1\<close>.
\<close>

theorem pool_lifo:
  assumes "length (freelist_of c (String a)) + 2 \<le> maxIdleConnsPerAddr"
  shows "freelist_of (putFreeConn a c2 (putFreeConn a c1 c)) (String a)
           = freelist_of c (String a) @ [c1, c2]
    \<and> fst (getFreeConn a (putFreeConn a c2 (putFreeConn a c1 c))) = Some c2
    \<and> fst (getConn w a (putFreeConn a c2 (putFreeConn a c1 c))) = Inr c2
    \<and> fst (getFreeConn a (snd (getFreeConn a (putFreeConn a c2 (putFreeConn a c1 c))))) = Some c1"
proof -
  let ?c = "putFreeConn a c2 (putFreeConn a c1 c)"
  have l: "freelist_of ?c (String a) = freelist_of c (String a) @ [c1, c2]"
    using assms by (simp add: freelist_of_putFreeConn maxIdleConnsPerAddr_def)
  have g: "fst (getFreeConn a ?c) = Some c2"
    by (simp add: fst_getFreeConn l)
  have "fst (getFreeConn a (snd (getFreeConn a ?c))) = Some c1"
    by (simp add: fst_getFreeConn freelist_of_getFreeConn l butlast_append)
  with l g getConn_pooled [OF g, of w] show ?thesis
    by simp
qed

theorem pool_lifo_witness:
  "length (freelist_of newClient (String exAddr)) + 2 \<le> maxIdleConnsPerAddr
   \<and> fst (getFreeConn exAddr (putFreeConn exAddr (exConn 1) (putFreeConn exAddr (exConn 0) newClient)))
       = Some (exConn 1)"
proof -
  have h: "length (freelist_of newClient (String exAddr)) + 2 \<le> maxIdleConnsPerAddr"
    by (simp add: newClient_def freelist_of_def maxIdleConnsPerAddr_def)
  show ?thesis
    using h pool_lifo [OF h, where ?c1.0 = "exConn 0" and ?c2.0 = "exConn 1"] by simp
qed

subsection \<open>Conditional release\<close>

text \<open>
  C4, as the code has it: \<open>resumableError\<close> holds of exactly the four errors.
  \<open>condRelease\<close> appends the connection to the idle list of its address iff the
  error is nil or resumable and that list holds fewer than 2 connections; in every
  other case it closes the transport and leaves all lists as they were.
\<close>

theorem condRelease_pool:
  "resumableError e = (e = ErrCacheMiss \<or> e = ErrCASConflict \<or> e = ErrNotStored \<or> e = ErrMalformedKey)
   \<and> freelist_of (condRelease err cn c) s =
       (if (err = None \<or> (\<exists>e. err = Some e \<and> resumableError e))
           \<and> s = String (addr cn) \<and> length (freelist_of c s) < 2
        then freelist_of c s @ [cn] else freelist_of c s)
   \<and> trace (condRelease err cn c) =
       (if (err = None \<or> (\<exists>e. err = Some e \<and> resumableError e))
           \<and> length (freelist_of c (String (addr cn))) < 2
        then trace c else trace c @ [EvClose (nc cn)])"
proof (intro conjI)
  show "resumableError e =
      (e = ErrCacheMiss \<or> e = ErrCASConflict \<or> e = ErrNotStored \<or> e = ErrMalformedKey)"
    by (cases e) simp_all
next
  show "freelist_of (condRelease err cn c) s =
       (if (err = None \<or> (\<exists>e. err = Some e \<and> resumableError e))
           \<and> s = String (addr cn) \<and> length (freelist_of c s) < 2
        then freelist_of c s @ [cn] else freelist_of c s)"
    by (cases err; cases "s = String (addr cn)")
      (simp_all add: condRelease_def release_def freelist_of_putFreeConn freelist_of_closeConn
        maxIdleConnsPerAddr_def)
next
  show "trace (condRelease err cn c) =
       (if (err = None \<or> (\<exists>e. err = Some e \<and> resumableError e))
           \<and> length (freelist_of c (String (addr cn))) < 2
        then trace c else trace c @ [EvClose (nc cn)])"
    by (cases err)
      (simp_all add: condRelease_def release_def trace_putFreeConn trace_closeConn
        maxIdleConnsPerAddr_def)
qed

text \<open>
  C4 as the specification states it fails when the idle list is full: with the nil
  error and two idle connections for the address, \<open>condRelease\<close> closes the
  transport and the connection does not enter the pool.
\<close>

theorem condRelease_pool_witness:
  "freelist_of (condRelease (Some ErrCacheMiss) (exConn 0) newClient) (String exAddr) = [exConn 0]
   \<and> trace (condRelease (Some ErrCacheMiss) (exConn 0) newClient) = []
   \<and> freelist_of (condRelease (Some EOF) (exConn 0) newClient) (String exAddr) = []
   \<and> trace (condRelease (Some EOF) (exConn 0) newClient) = [EvClose 0]"
  using condRelease_pool [of ErrCacheMiss "Some ErrCacheMiss" "exConn 0" newClient "String exAddr"]
    condRelease_pool [of EOF "Some EOF" "exConn 0" newClient "String exAddr"]
  by (simp add: freelist_of_newClient trace_newClient exConn_def)

theorem condRelease_full_counterexample:
  "freelist_of (condRelease None (exConn 2)
       (putFreeConn exAddr (exConn 1) (putFreeConn exAddr (exConn 0) newClient))) (String exAddr)
     = [exConn 0, exConn 1]
   \<and> trace (condRelease None (exConn 2)
       (putFreeConn exAddr (exConn 1) (putFreeConn exAddr (exConn 0) newClient)))
     = [EvClose 2]"
  by (simp add: condRelease_def release_def ex_full_pool trace_putFreeConn freelist_of_putFreeConn
      maxIdleConnsPerAddr_def freelist_of_newClient trace_newClient exConn_def)

subsection \<open>Retrieval of several keys\<close>

text \<open>
  C10: \<open>GetMulti\<close> of no keys returns an empty map that is not nil and the nil
  error, and leaves the client as it was: no event is added to the trace (the selector
  is not asked, nothing is dialed, sent or closed) and the pool is untouched.
\<close>

theorem GetMulti_empty: "GetMulti w [] c = (Done (Some Map.empty, None), c)"
  by (simp add: GetMulti_def)

theorem GetMulti_empty_witness:
  "GetMulti (exWorld []) [] newClient = (Done (Some Map.empty, None), newClient)"
  using GetMulti_empty [of "exWorld []" newClient] by simp


subsection \<open>Operations on an illegal key\<close>

lemma onItem_malformed:
  assumes "Key item = k" and "\<not> legalKey k"
  shows "onItem w item (\<lambda>cn it. populateOne w cn verb it) c =
     (case PickServer w k of
        Inl e \<Rightarrow> (Some e, c\<lparr>trace := trace c @ [EvPickServer k]\<rparr>)
      | Inr a \<Rightarrow>
          (case getConn w a (c\<lparr>trace := trace c @ [EvPickServer k]\<rparr>) of
             (Inl e, c2) \<Rightarrow> (Some e, c2)
           | (Inr cn, c2) \<Rightarrow> (Some ErrMalformedKey, release cn c2)))"
  using assms
  by (simp add: onItem_def populateOne_def condRelease_def Let_def
      split: sum.splits prod.splits)

lemma set_fn_eq: "set_fn w = (\<lambda>cn it. populateOne w cn ''set'' it)"
  by (intro ext) (simp add: set_fn_def)

lemma add_fn_eq: "add_fn w = (\<lambda>cn it. populateOne w cn ''add'' it)"
  by (intro ext) (simp add: add_fn_def)

lemma cas_fn_eq: "cas_fn w = (\<lambda>cn it. populateOne w cn ''cas'' it)"
  by (intro ext) (simp add: cas_fn_def)

text \<open>
  C1, as the code has it. With a key that is not legal, \<open>Get\<close>, \<open>Delete\<close>,
  \<open>Increment\<close> and \<open>Decrement\<close> return \<open>ErrMalformedKey\<close> and leave the
  client as it was: the selector is not asked and no connection is taken or dialed.
  \<open>Set\<close>, \<open>Add\<close> and \<open>CompareAndSwap\<close> all do the same thing, in the order
  of \<open>onItem\<close>: they ask the selector first and return its error if it has one;
  then they take a connection with \<open>getConn\<close> and return its error if it has
  one; only then they return \<open>ErrMalformedKey\<close>, having sent nothing, and release
  the connection to the pool.
\<close>

theorem malformed_key:
  assumes "\<not> legalKey k"
  shows "Get w k c = (Done (None, Some ErrMalformedKey), c)
    \<and> Delete w k c = (Done ((), Some ErrMalformedKey), c)
    \<and> Increment w k delta c = (Done (0, Some ErrMalformedKey), c)
    \<and> Decrement w k delta c = (Done (0, Some ErrMalformedKey), c)
    \<and> Add w (item\<lparr>Key := k\<rparr>) c = Set w (item\<lparr>Key := k\<rparr>) c
    \<and> CompareAndSwap w (item\<lparr>Key := k\<rparr>) c = Set w (item\<lparr>Key := k\<rparr>) c
    \<and> Set w (item\<lparr>Key := k\<rparr>) c =
         (case PickServer w k of
            Inl e \<Rightarrow> (Some e, c\<lparr>trace := trace c @ [EvPickServer k]\<rparr>)
          | Inr a \<Rightarrow>
              (case getConn w a (c\<lparr>trace := trace c @ [EvPickServer k]\<rparr>) of
                 (Inl e, c2) \<Rightarrow> (Some e, c2)
               | (Inr cn, c2) \<Rightarrow> (Some ErrMalformedKey, release cn c2)))"
proof -
  have g: "Get w k c = (Done (None, Some ErrMalformedKey), c)"
    using assms by (simp add: Get_def withKeyAddr_def)
  have d: "Delete w k c = (Done ((), Some ErrMalformedKey), c)"
    using assms by (simp add: Delete_def withKeyRw_def withKeyAddr_def)
  have i: "incrDecr w verb k delta c = (Done (0, Some ErrMalformedKey), c)" for verb
    using assms by (simp add: incrDecr_def withKeyRw_def withKeyAddr_def)
  have k: "Key (item\<lparr>Key := k\<rparr>) = k"
    by simp
  note m = onItem_malformed [OF k assms, of w _ c]
  have s: "Set w (item\<lparr>Key := k\<rparr>) c = onItem w (item\<lparr>Key := k\<rparr>) (\<lambda>cn it. populateOne w cn ''set'' it) c"
    by (simp add: Set_def set_fn_eq)
  have a: "Add w (item\<lparr>Key := k\<rparr>) c = onItem w (item\<lparr>Key := k\<rparr>) (\<lambda>cn it. populateOne w cn ''add'' it) c"
    by (simp add: Add_def add_fn_eq)
  have x: "CompareAndSwap w (item\<lparr>Key := k\<rparr>) c = onItem w (item\<lparr>Key := k\<rparr>) (\<lambda>cn it. populateOne w cn ''cas'' it) c"
    by (simp add: CompareAndSwap_def cas_fn_eq)
  show ?thesis
    unfolding Increment_def Decrement_def s a x m
    using g d i by simp
qed

lemma legalKey_ex_bad: "\<not> legalKey ''a b''"
  by (simp add: legalKey_def)

lemma PickServer_ex: "PickServer (exWorld reply) key = Inr exAddr"
  by (simp add: exWorld_def)

lemma getConn_new:
  "freeconn c = None \<Longrightarrow> getConn (exWorld reply) exAddr c =
     (Inr (exConn (fresh c)),
      c\<lparr>trace := trace c @ [EvDial exAddr, EvSetDeadline (fresh c)], fresh := Suc (fresh c)\<rparr>)"
  by (simp add: getConn_def getFreeConn_def dial_def exWorld_def exConn_def extendDeadline_def
      Let_def)

lemma release_new:
  "freeconn c = None \<Longrightarrow> release (exConn n) c = c\<lparr>freeconn := Some [String exAddr \<mapsto> [exConn n]]\<rparr>"
  by (simp add: release_def putFreeConn_def exConn_def maxIdleConnsPerAddr_def Let_def)

theorem malformed_key_witness:
  "Get (exWorld []) ''a b'' newClient = (Done (None, Some ErrMalformedKey), newClient)
   \<and> Set (exWorld []) ((exItem ''foo'')\<lparr>Key := ''a b''\<rparr>) newClient =
       (Some ErrMalformedKey,
        \<lparr>freeconn = Some [String exAddr \<mapsto> [exConn 0]],
         trace = [EvPickServer ''a b'', EvDial exAddr, EvSetDeadline 0], fresh = Suc 0\<rparr>)"
  using malformed_key [OF legalKey_ex_bad, of "exWorld []" newClient 0 "exItem ''foo''"]
  by (simp add: PickServer_ex getConn_new release_new newClient_def)

text \<open>
  C1 as the specification states it fails for \<open>Set\<close>: with the illegal key
  \<open>a b\<close> the selector is asked and a connection is dialed before
  \<open>ErrMalformedKey\<close> is returned, and with a selector that has no servers the
  error returned is \<open>ErrNoServers\<close>.
\<close>

theorem store_malformed_counterexample:
  "\<not> legalKey ''a b''
   \<and> Set (exWorld []) ((exItem ''foo'')\<lparr>Key := ''a b''\<rparr>) newClient =
       (Some ErrMalformedKey,
        \<lparr>freeconn = Some [String exAddr \<mapsto> [exConn 0]],
         trace = [EvPickServer ''a b'', EvDial exAddr, EvSetDeadline 0], fresh = Suc 0\<rparr>)
   \<and> Set ((exWorld [])\<lparr>PickServer := \<lambda>key. Inl ErrNoServers\<rparr>)
        ((exItem ''foo'')\<lparr>Key := ''a b''\<rparr>) newClient =
       (Some ErrNoServers, \<lparr>freeconn = None, trace = [EvPickServer ''a b''], fresh = 0\<rparr>)"
  by (simp add: legalKey_ex_bad Set_def onItem_def set_fn_def populateOne_def PickServer_ex
      getConn_new release_new newClient_def condRelease_def)


subsection \<open>The answer to a store\<close>

lemma ReadSlice_line:
  assumes "CHR 0x0A \<notin> set l" and "length l < defaultBufSize"
  shows "ReadSlice (l @ CHR 0x0A # rest, e) = (Inr (l @ [CHR 0x0A]), (rest, e))"
proof -
  have "takeWhile (\<lambda>b. b \<noteq> CHR 0x0A) (l @ CHR 0x0A # rest) = l"
    using assms(1) by (induction l) auto
  then show ?thesis
    using assms(2) by (simp add: ReadSlice_def)
qed

lemma populateOne_line:
  assumes "legalKey (Key item)"
    and "netSend w (nc cn) (storeRequest verb item) = None"
    and "ReadSlice (rbuf cn @ fst (netReply w (nc cn) (storeRequest verb item)),
           snd (netReply w (nc cn) (storeRequest verb item))) = (Inr line, r1)"
  shows "fst (populateOne w cn verb item c) =
     (if line = resultStored then None
      else if line = resultNotStored then Some ErrNotStored
      else if line = resultExists then Some ErrCASConflict
      else if line = resultNotFound then Some ErrCacheMiss
      else Some (Errorf ''memcache: unexpected response line from %q: %q'' [verb, line]))"
  using assms by (simp add: populateOne_def writeFlush_def Let_def)

lemma fst_onItem:
  assumes "PickServer w (Key item) = Inr a"
    and "getConn w a (c\<lparr>trace := trace c @ [EvPickServer (Key item)]\<rparr>) = (Inr cn, c2)"
  shows "fst (onItem w item fn c) = fst (fn cn item c2)"
  using assms by (simp add: onItem_def Let_def split: prod.splits)

text \<open>
  C6: for \<open>Set\<close>, \<open>Add\<close> and \<open>CompareAndSwap\<close> (the verbs \<open>set\<close>,
  \<open>add\<close> and \<open>cas\<close>) on a legal key, once the selector has given an address,
  \<open>getConn\<close> a connection, the request has been sent and \<open>ReadSlice\<close> has
  returned a line, the error of the operation is decided by that line alone:
  nil for \<open>STORED\<close>, \<open>ErrNotStored\<close> for \<open>NOT_STORED\<close>,
  \<open>ErrCASConflict\<close> for \<open>EXISTS\<close>, \<open>ErrCacheMiss\<close> for
  \<open>NOT_FOUND\<close>, and for any other line the error that \<open>fmt.Errorf\<close> makes
  of the verb and the line, which is not resumable.
\<close>

theorem store_classify:
  assumes "legalKey (Key item)"
    and "PickServer w (Key item) = Inr a"
    and "getConn w a (c\<lparr>trace := trace c @ [EvPickServer (Key item)]\<rparr>) = (Inr cn, c2)"
    and "netSend w (nc cn) (storeRequest verb item) = None"
    and "ReadSlice (rbuf cn @ fst (netReply w (nc cn) (storeRequest verb item)),
           snd (netReply w (nc cn) (storeRequest verb item))) = (Inr line, r1)"
    and "(verb, op) \<in> {(''set'', Set), (''add'', Add), (''cas'', CompareAndSwap)}"
  shows "fst (op w item c) =
     (if line = ''STORED'' @ [CHR 0x0D, CHR 0x0A] then None
      else if line = ''NOT_STORED'' @ [CHR 0x0D, CHR 0x0A] then Some ErrNotStored
      else if line = ''EXISTS'' @ [CHR 0x0D, CHR 0x0A] then Some ErrCASConflict
      else if line = ''NOT_FOUND'' @ [CHR 0x0D, CHR 0x0A] then Some ErrCacheMiss
      else Some (Errorf ''memcache: unexpected response line from %q: %q'' [verb, line]))
    \<and> \<not> resumableError (Errorf ''memcache: unexpected response line from %q: %q'' [verb, line])"
proof -
  have "fst (op w item c) = fst (populateOne w cn verb item c2)"
    using assms(6) fst_onItem [OF assms(2,3)]
    by (auto simp: Set_def Add_def CompareAndSwap_def set_fn_def add_fn_def cas_fn_def)
  then show ?thesis
    using populateOne_line [OF assms(1,4,5), of c2]
    by (simp add: resultStored_def resultNotStored_def resultExists_def resultNotFound_def crlf_def)
qed

lemma legalKey_foo: "legalKey ''foo''"
  by (simp add: legalKey_def)

lemma Key_exItem: "Key (exItem k) = k"
  by (simp add: exItem_def)

lemma netSend_ex: "netSend (exWorld reply) n req = None"
  by (simp add: exWorld_def)

lemma netReply_ex: "netReply (exWorld reply) n req = (reply, EOF)"
  by (simp add: exWorld_def)

lemma rbuf_exConn: "rbuf (exConn n) = []"
  by (simp add: exConn_def)

theorem store_classify_witness:
  "fst (Set (exWorld (''STORED'' @ [CHR 0x0D, CHR 0x0A])) (exItem ''foo'') newClient) = None
   \<and> fst (Add (exWorld (''NOT_STORED'' @ [CHR 0x0D, CHR 0x0A])) (exItem ''foo'') newClient)
       = Some ErrNotStored
   \<and> fst (CompareAndSwap (exWorld (''ERROR'' @ [CHR 0x0D, CHR 0x0A])) (exItem ''foo'') newClient)
       = Some (Errorf ''memcache: unexpected response line from %q: %q''
                 [''cas'', ''ERROR'' @ [CHR 0x0D, CHR 0x0A]])"
proof -
  have k: "legalKey (Key (exItem ''foo''))"
    by (simp add: Key_exItem legalKey_foo)
  have p: "PickServer (exWorld reply) (Key (exItem ''foo'')) = Inr exAddr" for reply
    by (rule PickServer_ex)
  have g: "getConn (exWorld reply) exAddr
         (newClient\<lparr>trace := trace newClient @ [EvPickServer (Key (exItem ''foo''))]\<rparr>)
      = (Inr (exConn 0),
         newClient\<lparr>trace := [EvPickServer ''foo'', EvDial exAddr, EvSetDeadline 0], fresh := Suc 0\<rparr>)"
    for reply
    by (simp add: getConn_new newClient_def Key_exItem)
  have s: "netSend (exWorld reply) (nc (exConn 0)) (storeRequest verb (exItem ''foo'')) = None"
    for reply verb
    by (rule netSend_ex)
  have r: "ReadSlice (rbuf (exConn 0)
              @ fst (netReply (exWorld (l @ [CHR 0x0D, CHR 0x0A])) (nc (exConn 0))
                      (storeRequest verb (exItem ''foo''))),
             snd (netReply (exWorld (l @ [CHR 0x0D, CHR 0x0A])) (nc (exConn 0))
                      (storeRequest verb (exItem ''foo''))))
           = (Inr (l @ [CHR 0x0D, CHR 0x0A]), ([], EOF))"
    if "CHR 0x0A \<notin> set (l @ [CHR 0x0D])" and "length (l @ [CHR 0x0D]) < defaultBufSize"
    for l verb
    using ReadSlice_line [OF that, of "[]" EOF] by (simp add: netReply_ex rbuf_exConn)
  have r1: "CHR 0x0A \<notin> set (''STORED'' @ [CHR 0x0D])"
    "length (''STORED'' @ [CHR 0x0D]) < defaultBufSize"
    "CHR 0x0A \<notin> set (''NOT_STORED'' @ [CHR 0x0D])"
    "length (''NOT_STORED'' @ [CHR 0x0D]) < defaultBufSize"
    "CHR 0x0A \<notin> set (''ERROR'' @ [CHR 0x0D])"
    "length (''ERROR'' @ [CHR 0x0D]) < defaultBufSize"
    by (simp_all add: defaultBufSize_def)
  show ?thesis
    using store_classify [OF k p g s r [OF r1(1,2)], of "''set''" Set]
      store_classify [OF k p g s r [OF r1(3,4)], of "''add''" Add]
      store_classify [OF k p g s r [OF r1(5,6)], of "''cas''" CompareAndSwap]
    by simp
qed


subsection \<open>The payload of a retrieved value\<close>

lemma parseGetResponse_Stop:
  "parseItem w r = (Stop err, r') \<Longrightarrow> parseGetResponse w r cb x = (Done (x, err), r')"
  by (subst parseGetResponse.simps) simp

lemma parseGetResponse_Fault:
  "parseItem w r = (Fault, r') \<Longrightarrow> parseGetResponse w r cb x = (Panic, r')"
  by (subst parseGetResponse.simps) simp

lemma parseGetResponse_Emit:
  "parseItem w r = (Emit it, r') \<Longrightarrow>
     parseGetResponse w r cb x = parseGetResponse w r' cb (cb it x)"
  by (subst parseGetResponse.simps) simp







text \<open>
  C9 fails on the code. When the bytes end (with \<open>EOF\<close>) before \<open>sz + 2\<close>
  bytes have come, \<open>ReadAll\<close> returns the shorter slice without an error; if it
  happens to end with \<open>\r\n\<close> the check passes, and the slice expression
  \<open>it.Value[:size]\<close> panics as soon as the declared size is above the capacity of
  the slice.
\<close>

lemma parseItem_beyond_capacity:
  assumes "ReadSlice r = (Inr line, r1)"
    and "line \<noteq> resultEnd"
    and "scanGetResponseLine w line = Inr (it, sz)"
    and "ReadAllLimit r1 (sint (sz + 2)) = (Inr v, r2)"
    and "HasSuffix v crlf"
    and "int (length v + length (spare w v)) < sint sz"
  shows "parseItem w r = (Fault, r2)"
  using assms by (simp add: parseItem_def reslice_def)

lemma ReadSlice_exTruncated:
  "CHR 0x0A \<notin> set n \<Longrightarrow> length n < 100 \<Longrightarrow>
     ReadSlice (exTruncated n, e) = (Inr (''VALUE k 0 '' @ n @ '' 7'' @ crlf), (''ab'' @ crlf, e))"
  using ReadSlice_line [of "''VALUE k 0 '' @ n @ '' 7'' @ [CHR 0x0D]" "''ab'' @ crlf" e]
  by (simp add: exTruncated_def crlf_def defaultBufSize_def)

lemma scan_exTruncated:
  "scanGetResponseLine (exWorld reply) (''VALUE k 0 100000 7'' @ crlf) =
     Inr (\<lparr>Key = ''k'', Value = [], Flags = 0, Expiration = 0, casid = 7\<rparr>, 100000)"
  "scanGetResponseLine (exWorld reply) (''VALUE k 0 10 7'' @ crlf) =
     Inr (\<lparr>Key = ''k'', Value = [], Flags = 0, Expiration = 0, casid = 7\<rparr>, 10)"
  by (simp_all add: scanGetResponseLine_def exWorld_def exSscanf_def crlf_def)

lemma ReadAllLimit_short:
  "ReadAllLimit (''ab'' @ crlf, EOF) (sint ((100000 :: 64 word) + 2)) = (Inr (''ab'' @ crlf), ([], EOF))"
  "ReadAllLimit (''ab'' @ crlf, EOF) (sint ((10 :: 64 word) + 2)) = (Inr (''ab'' @ crlf), ([], EOF))"
  by (simp_all add: ReadAllLimit_def crlf_def)

lemma parseItem_exTruncated:
  "parseItem (exWorld reply) (exTruncated ''100000'', EOF) = (Fault, ([], EOF))"
proof -
  have r: "ReadSlice (exTruncated ''100000'', EOF)
      = (Inr (''VALUE k 0 100000 7'' @ crlf), (''ab'' @ crlf, EOF))"
    using ReadSlice_exTruncated [of "''100000''" EOF] by simp
  have l: "''VALUE k 0 100000 7'' @ crlf \<noteq> resultEnd"
    by (simp add: resultEnd_def)
  have h: "HasSuffix (''ab'' @ crlf) crlf"
    by (simp add: HasSuffix_def crlf_def)
  have c: "int (length (''ab'' @ crlf) + length (spare (exWorld reply) (''ab'' @ crlf)))
      < sint (100000 :: 64 word)"
    by (simp add: exWorld_def exSpare_def crlf_def)
  show ?thesis
    by (rule parseItem_beyond_capacity [OF r l scan_exTruncated(1) ReadAllLimit_short(1) h c])
qed

lemma legalKey_k: "legalKey ''k''"
  by (simp add: legalKey_def)

lemma writeFlush_ex:
  "writeFlush (exWorld reply) (exConn n) req c =
     (Inr (reply, EOF), c\<lparr>trace := trace c @ [EvSend n req]\<rparr>)"
  by (simp add: writeFlush_def exWorld_def exConn_def)

lemma getFromAddr_exTruncated:
  "freeconn c = None \<Longrightarrow>
     \<exists>c'. getFromAddr (exWorld (exTruncated ''100000'')) exAddr keys cb x0 c = (Panic, c')"
  by (simp add: getFromAddr_def withAddrRw_def getConn_new writeFlush_ex
      parseGetResponse_Fault [OF parseItem_exTruncated])

text \<open>
  The failing input of C9: the server declares 100000 bytes, sends \<open>ab\r\n\<close> and
  closes the connection. \<open>ReadAll\<close> returns these 4 bytes, they end with
  \<open>\r\n\<close>, and \<open>Get\<close> and \<open>GetMulti\<close> panic.
\<close>

theorem truncated_value_panics:
  "ReadAllLimit (''ab'' @ crlf, EOF) (sint ((100000 :: 64 word) + 2))
      = (Inr (''ab'' @ crlf), ([], EOF))
   \<and> HasSuffix (''ab'' @ crlf) crlf
   \<and> fst (Get (exWorld (exTruncated ''100000'')) ''k'' newClient) = Panic
   \<and> fst (GetMulti (exWorld (exTruncated ''100000'')) [''k''] newClient) = Panic"
proof -
  have f: "freeconn (newClient\<lparr>trace := trace newClient @ [EvPickServer ''k'']\<rparr>) = None"
    by (simp add: newClient_def)
  obtain c1 where c1: "getFromAddr (exWorld (exTruncated ''100000'')) exAddr [''k'']
      (\<lambda>it item. Some it) None (newClient\<lparr>trace := trace newClient @ [EvPickServer ''k'']\<rparr>)
      = (Panic, c1)"
    using getFromAddr_exTruncated [OF f, of "[''k'']" "\<lambda>it item. Some it" None] by (elim exE)
  obtain c2 where c2: "getFromAddr (exWorld (exTruncated ''100000'')) exAddr [''k'']
      addItemToMap Map.empty (newClient\<lparr>trace := trace newClient @ [EvPickServer ''k'']\<rparr>)
      = (Panic, c2)"
    using getFromAddr_exTruncated [OF f, of "[''k'']" addItemToMap Map.empty] by (elim exE)
  have g: "fst (Get (exWorld (exTruncated ''100000'')) ''k'' newClient) = Panic"
    by (simp add: Get_def withKeyAddr_def legalKey_k PickServer_ex c1)
  have m: "fst (GetMulti (exWorld (exTruncated ''100000'')) [''k''] newClient) = Panic"
    by (simp add: GetMulti_def legalKey_k PickServer_ex c2)
  have h: "HasSuffix (''ab'' @ crlf) crlf"
    by (simp add: HasSuffix_def crlf_def)
  from ReadAllLimit_short(1) h g m show ?thesis
    by (intro conjI)
qed


subsection \<open>The map of \<open>GetMulti\<close>\<close>

lemma deliver_collect: "deliver cb x0 (collect it its) = cb it (deliver cb x0 its)"
  by (simp add: deliver_def collect_def)

lemma parseGetResponse_deliver:
  "parseGetResponse w r cb (deliver cb x0 acc) =
     (case parseGetResponse w r collect acc of
        (Panic, r') \<Rightarrow> (Panic, r')
      | (Done (its, e), r') \<Rightarrow> (Done (deliver cb x0 its, e), r'))"
proof (induction w r "collect" acc rule: parseGetResponse.induct)
  case (1 w r acc)
  obtain s r' where p: "parseItem w r = (s, r')"
    by (cases "parseItem w r")
  show ?case
  proof (cases s)
    case (Stop err)
    with p show ?thesis
      by (simp add: parseGetResponse_Stop)
  next
    case Fault
    with p show ?thesis
      by (simp add: parseGetResponse_Fault)
  next
    case (Emit it)
    with p have e: "parseItem w r = (Emit it, r')"
      by simp
    from "1" [OF p [symmetric] Emit] show ?thesis
      by (simp add: parseGetResponse_Emit [OF e] deliver_collect)
  qed
qed

lemma getFromAddr_deliver:
  "getFromAddr w a keys cb (deliver cb x0 acc) c =
     (case getFromAddr w a keys collect acc c of
        (Panic, c') \<Rightarrow> (Panic, c')
      | (Done (its, e), c') \<Rightarrow> (Done (deliver cb x0 its, e), c'))"
proof (cases "getConn w a c")
  case (Pair g c1)
  show ?thesis
  proof (cases g)
    case (Inl err)
    with Pair show ?thesis
      by (simp add: getFromAddr_def withAddrRw_def)
  next
    case (Inr cn)
    show ?thesis
    proof (cases "writeFlush w cn (''gets '' @ Join keys '' '' @ crlf) c1")
      case (Pair f c2)
      note wf = this
      show ?thesis
      proof (cases f)
        case (Inl err)
        with wf \<open>getConn w a c = (g, c1)\<close> \<open>g = Inr cn\<close> show ?thesis
          by (simp add: getFromAddr_def withAddrRw_def)
      next
        case (Inr r)
        obtain res r' where pr: "parseGetResponse w r collect acc = (res, r')"
          by (cases "parseGetResponse w r collect acc")
        show ?thesis
        proof (cases res)
          case Panic
          with pr wf Inr \<open>getConn w a c = (g, c1)\<close> \<open>g = Inr cn\<close> show ?thesis
            by (simp add: getFromAddr_def withAddrRw_def parseGetResponse_deliver)
        next
          case (Done y)
          obtain its e where y: "y = (its, e)"
            by (cases y)
          with Done pr wf Inr \<open>getConn w a c = (g, c1)\<close> \<open>g = Inr cn\<close> show ?thesis
            by (simp add: getFromAddr_def withAddrRw_def parseGetResponse_deliver)
        qed
      qed
    qed
  qed
qed

lemma GetMulti_tasks_deliver:
  "GetMulti_tasks w km cb (deliver cb x0 acc) err c =
     (case GetMulti_tasks w km collect acc err c of
        (Panic, c') \<Rightarrow> (Panic, c')
      | (Done (its, e), c') \<Rightarrow> (Done (deliver cb x0 its, e), c'))"
proof (induction km arbitrary: acc err c)
  case Nil
  show ?case by simp
next
  case (Cons b km)
  obtain a keys where b: "b = (a, keys)"
    by (cases b)
  obtain res c' where g: "getFromAddr w a keys collect acc c = (res, c')"
    by (cases "getFromAddr w a keys collect acc c")
  show ?case
  proof (cases res)
    case Panic
    with b g show ?thesis
      by (simp add: getFromAddr_deliver)
  next
    case (Done y)
    obtain its ge where y: "y = (its, ge)"
      by (cases y)
    with Done b g show ?thesis
      by (simp add: getFromAddr_deliver Cons.IH)
  qed
qed

lemma GetMulti_partition_ok:
  assumes "\<forall>k \<in> set keys. legalKey k \<and> (\<exists>a. PickServer w k = Inr a)"
  shows "\<exists>km' c1. GetMulti_partition w keys km c = (Inr km', c1)"
  using assms
proof (induction keys arbitrary: km c)
  case Nil
  show ?case by simp
next
  case (Cons key keys)
  then obtain a where "PickServer w key = Inr a" and "legalKey key"
    by auto
  with Cons show ?case
    by (simp add: Let_def)
qed

lemma deliver_addItemToMap:
  "it \<in> set its \<Longrightarrow>
     \<exists>it' \<in> set its. Key it' = Key it \<and> deliver addItemToMap m its (Key it) = Some it'"
proof (induction its arbitrary: m rule: rev_induct)
  case Nil
  then show ?case by simp
next
  case (snoc x xs)
  show ?case
  proof (cases "Key x = Key it")
    case True
    then show ?thesis
      by (auto simp: deliver_def addItemToMap_def)
  next
    case False
    with snoc.prems have "it \<in> set xs"
      by auto
    from snoc.IH [OF this, of m] False show ?thesis
      by (auto simp: deliver_def addItemToMap_def)
  qed
qed

lemma GetMulti_map_all_ok:
  assumes "\<forall>k \<in> set keys. legalKey k \<and> (\<exists>a. PickServer w k = Inr a)"
  shows "\<exists>km c1. GetMulti_partition w keys [] c = (Inr km, c1) \<and>
     (case GetMulti_tasks w km collect [] None c1 of
        (Panic, c2) \<Rightarrow> GetMulti w keys c = (Panic, c2)
      | (Done (its, err), c2) \<Rightarrow>
          GetMulti w keys c = (Done (Some (deliver addItemToMap Map.empty its), err), c2)
          \<and> (\<forall>it \<in> set its. \<exists>it' \<in> set its. Key it' = Key it
                \<and> deliver addItemToMap Map.empty its (Key it) = Some it'))"
proof -
  obtain km c1 where p: "GetMulti_partition w keys [] c = (Inr km, c1)"
    using GetMulti_partition_ok [OF assms] by blast
  have d: "(Map.empty :: bytes \<rightharpoonup> Item) = deliver addItemToMap Map.empty []"
    by (simp add: deliver_def)
  obtain res c2 where t: "GetMulti_tasks w km collect [] None c1 = (res, c2)"
    by (cases "GetMulti_tasks w km collect [] None c1")
  have t': "GetMulti_tasks w km addItemToMap Map.empty None c1 =
     (case (res, c2) of
        (Panic, c') \<Rightarrow> (Panic, c')
      | (Done (its, e), c') \<Rightarrow> (Done (deliver addItemToMap Map.empty its, e), c'))"
    using GetMulti_tasks_deliver [of w km addItemToMap Map.empty "[]" None c1] t
    by (simp add: d [symmetric])
  have "case (res, c2) of
        (Panic, c2) \<Rightarrow> GetMulti w keys c = (Panic, c2)
      | (Done (its, err), c2) \<Rightarrow>
          GetMulti w keys c = (Done (Some (deliver addItemToMap Map.empty its), err), c2)
          \<and> (\<forall>it \<in> set its. \<exists>it' \<in> set its. Key it' = Key it
                \<and> deliver addItemToMap Map.empty its (Key it) = Some it')"
  proof (cases res)
    case Panic
    with p t' show ?thesis
      by (simp add: GetMulti_def)
  next
    case (Done y)
    obtain its e where y: "y = (its, e)"
      by (cases y)
    with Done p t' show ?thesis
      by (simp add: GetMulti_def deliver_addItemToMap)
  qed
  with p t show ?thesis
    by simp
qed

lemma GetMulti_partition_fail:
  assumes "\<forall>k' \<in> set ks. legalKey k' \<and> (\<exists>a. PickServer w k' = Inr a)"
    and "if legalKey k then PickServer w k = Inl e else e = ErrMalformedKey"
  shows "GetMulti_partition w (ks @ k # rest) km c =
     (Inl e, c\<lparr>trace := trace c @ map EvPickServer (ks @ (if legalKey k then [k] else []))\<rparr>)"
  using assms(1)
proof (induction ks arbitrary: km c)
  case Nil
  from assms(2) show ?case
    by (cases "legalKey k") (simp_all add: Let_def)
next
  case (Cons key ks)
  then obtain a where a: "PickServer w key = Inr a" and l: "legalKey key"
    by auto
  from Cons.prems have "\<forall>k' \<in> set ks. legalKey k' \<and> (\<exists>a. PickServer w k' = Inr a)"
    by simp
  from Cons.IH [OF this] a l show ?case
    by (simp add: Let_def)
qed

lemma first_failing_key:
  assumes "\<exists>k \<in> set keys. \<not> legalKey k \<or> (\<exists>e. PickServer w k = Inl e)"
  shows "\<exists>ks k rest e. keys = ks @ k # rest
    \<and> (\<forall>k' \<in> set ks. legalKey k' \<and> (\<exists>a. PickServer w k' = Inr a))
    \<and> (if legalKey k then PickServer w k = Inl e else e = ErrMalformedKey)"
proof -
  from assms obtain k0 where "k0 \<in> set keys"
    and "\<not> legalKey k0 \<or> (\<exists>e. PickServer w k0 = Inl e)"
    by blast
  then have "k0 \<in> set keys \<and> \<not> (legalKey k0 \<and> (\<exists>a. PickServer w k0 = Inr a))"
    by auto
  then have "\<exists>k \<in> set keys. \<not> (legalKey k \<and> (\<exists>a. PickServer w k = Inr a))"
    by blast
  then obtain ks k rest where s: "keys = ks @ k # rest"
    and f: "\<not> (legalKey k \<and> (\<exists>a. PickServer w k = Inr a))"
    and o: "\<forall>k' \<in> set ks. \<not> \<not> (legalKey k' \<and> (\<exists>a. PickServer w k' = Inr a))"
    using split_list_first_prop [of keys "\<lambda>k. \<not> (legalKey k \<and> (\<exists>a. PickServer w k = Inr a))"]
    by blast
  show ?thesis
  proof (cases "legalKey k")
    case True
    with f obtain e where "PickServer w k = Inl e"
      by (cases "PickServer w k") auto
    with s o True show ?thesis
      by auto
  next
    case False
    with s o show ?thesis
      by auto
  qed
qed

text \<open>
  C2, as the code has it, in three parts.
  \<^item> When every key is legal and the selector gives an address for each, the first
    loop of \<open>GetMulti\<close> succeeds. If then \<open>its\<close> are the items that the
    sub-tasks hand to the callback, in order, and \<open>err\<close> the error kept from them,
    \<open>GetMulti\<close> returns \<open>err\<close>, nil or not, with a map that is not nil and is
    \<open>addItemToMap\<close> run over all of \<open>its\<close>: for every item parsed, the map
    has under its key an item parsed with that key (the last one). The other outcome
    is that a sub-task panics, and so does \<open>GetMulti\<close>.
  \<^item> When some key is illegal or the selector fails for some key, there is a first
    such key, and \<open>GetMulti\<close> returns the nil map with the error of that key
    (\<open>ErrMalformedKey\<close>, or the error of the selector), having asked the selector
    for the keys before it (and for it, when it is legal) and done nothing else.
  \<^item> The same for every way of writing the key list as legal, routable keys
    followed by such a key.
\<close>

theorem GetMulti_map:
  "((\<forall>k \<in> set keys. legalKey k \<and> (\<exists>a. PickServer w k = Inr a)) \<longrightarrow>
      (\<exists>km c1. GetMulti_partition w keys [] c = (Inr km, c1) \<and>
         (case GetMulti_tasks w km collect [] None c1 of
            (Panic, c2) \<Rightarrow> GetMulti w keys c = (Panic, c2)
          | (Done (its, err), c2) \<Rightarrow>
              GetMulti w keys c = (Done (Some (deliver addItemToMap Map.empty its), err), c2)
              \<and> (\<forall>it \<in> set its. \<exists>it' \<in> set its. Key it' = Key it
                    \<and> deliver addItemToMap Map.empty its (Key it) = Some it'))))
   \<and> ((\<exists>k \<in> set keys. \<not> legalKey k \<or> (\<exists>e. PickServer w k = Inl e)) \<longrightarrow>
      (\<exists>ks k rest e. keys = ks @ k # rest
         \<and> (\<forall>k' \<in> set ks. legalKey k' \<and> (\<exists>a. PickServer w k' = Inr a))
         \<and> (if legalKey k then PickServer w k = Inl e else e = ErrMalformedKey)
         \<and> GetMulti w keys c =
               (Done (None, Some e),
                c\<lparr>trace := trace c
                     @ map EvPickServer (ks @ (if legalKey k then [k] else []))\<rparr>)))
   \<and> (\<forall>ks k rest e. keys = ks @ k # rest
         \<longrightarrow> (\<forall>k' \<in> set ks. legalKey k' \<and> (\<exists>a. PickServer w k' = Inr a))
         \<longrightarrow> (if legalKey k then PickServer w k = Inl e else e = ErrMalformedKey)
         \<longrightarrow> GetMulti w keys c =
               (Done (None, Some e),
                c\<lparr>trace := trace c
                     @ map EvPickServer (ks @ (if legalKey k then [k] else []))\<rparr>))"
proof -
  have nil: "GetMulti w keys c =
       (Done (None, Some e),
        c\<lparr>trace := trace c @ map EvPickServer (ks @ (if legalKey k then [k] else []))\<rparr>)"
    if "keys = ks @ k # rest"
      and "\<forall>k' \<in> set ks. legalKey k' \<and> (\<exists>a. PickServer w k' = Inr a)"
      and "if legalKey k then PickServer w k = Inl e else e = ErrMalformedKey"
    for ks k rest e
    using that by (simp add: GetMulti_def GetMulti_partition_fail)
  show ?thesis
  proof (intro conjI impI allI)
    assume "\<forall>k \<in> set keys. legalKey k \<and> (\<exists>a. PickServer w k = Inr a)"
    then show "\<exists>km c1. GetMulti_partition w keys [] c = (Inr km, c1) \<and>
         (case GetMulti_tasks w km collect [] None c1 of
            (Panic, c2) \<Rightarrow> GetMulti w keys c = (Panic, c2)
          | (Done (its, err), c2) \<Rightarrow>
              GetMulti w keys c = (Done (Some (deliver addItemToMap Map.empty its), err), c2)
              \<and> (\<forall>it \<in> set its. \<exists>it' \<in> set its. Key it' = Key it
                    \<and> deliver addItemToMap Map.empty its (Key it) = Some it'))"
      by (rule GetMulti_map_all_ok)
  next
    assume "\<exists>k \<in> set keys. \<not> legalKey k \<or> (\<exists>e. PickServer w k = Inl e)"
    then obtain ks k rest e where f: "keys = ks @ k # rest"
      "\<forall>k' \<in> set ks. legalKey k' \<and> (\<exists>a. PickServer w k' = Inr a)"
      "if legalKey k then PickServer w k = Inl e else e = ErrMalformedKey"
      using first_failing_key [of keys w] by blast
    from f nil [OF f] show "\<exists>ks k rest e. keys = ks @ k # rest
         \<and> (\<forall>k' \<in> set ks. legalKey k' \<and> (\<exists>a. PickServer w k' = Inr a))
         \<and> (if legalKey k then PickServer w k = Inl e else e = ErrMalformedKey)
         \<and> GetMulti w keys c =
               (Done (None, Some e),
                c\<lparr>trace := trace c
                     @ map EvPickServer (ks @ (if legalKey k then [k] else []))\<rparr>)"
      by blast
  next
    fix ks k rest e
    assume "keys = ks @ k # rest"
      and "\<forall>k' \<in> set ks. legalKey k' \<and> (\<exists>a. PickServer w k' = Inr a)"
      and "if legalKey k then PickServer w k = Inl e else e = ErrMalformedKey"
    then show "GetMulti w keys c =
               (Done (None, Some e),
                c\<lparr>trace := trace c
                     @ map EvPickServer (ks @ (if legalKey k then [k] else []))\<rparr>)"
      by (rule nil)
  qed
qed

lemma legalKey_ab: "legalKey ''a''" "legalKey ''b''"
  by (simp_all add: legalKey_def)

lemma parseItem_exPartial:
  "parseItem (exWorld reply) (exPartial, EOF) = (Emit exItemA, (''oops'' @ crlf, EOF))"
proof -
  have r: "ReadSlice (exPartial, EOF)
      = (Inr (''VALUE a 0 1 7'' @ crlf), (''x'' @ crlf @ ''oops'' @ crlf, EOF))"
    using ReadSlice_line [of "''VALUE a 0 1 7'' @ [CHR 0x0D]" "''x'' @ crlf @ ''oops'' @ crlf" EOF]
    by (simp add: exPartial_def crlf_def defaultBufSize_def)
  have l: "''VALUE a 0 1 7'' @ crlf \<noteq> resultEnd"
    by (simp add: resultEnd_def)
  have sc: "scanGetResponseLine (exWorld reply) (''VALUE a 0 1 7'' @ crlf) =
     Inr (\<lparr>Key = ''a'', Value = [], Flags = 0, Expiration = 0, casid = 7\<rparr>, 1)"
    by (simp add: scanGetResponseLine_def exWorld_def exSscanf_def crlf_def)
  have a: "ReadAllLimit (''x'' @ crlf @ ''oops'' @ crlf, EOF) (sint ((1 :: 64 word) + 2))
      = (Inr (''x'' @ crlf), (''oops'' @ crlf, EOF))"
    by (simp add: ReadAllLimit_def crlf_def)
  have h: "HasSuffix (''x'' @ crlf) crlf"
    by (simp add: HasSuffix_def crlf_def)
  have v: "reslice (exWorld reply) (''x'' @ crlf) (sint (1 :: 64 word)) = Some ''x''"
    by (simp add: reslice_def exWorld_def exSpare_def crlf_def)
  show ?thesis
    using r l sc a h v by (simp add: parseItem_def exItemA_def)
qed

lemma parseItem_oops:
  "parseItem (exWorld reply) (''oops'' @ crlf, EOF) =
     (Stop (Some (Errorf ''memcache: unexpected line in get response: %q'' [''oops'' @ crlf])),
      ([], EOF))"
proof -
  have r: "ReadSlice (''oops'' @ crlf, EOF) = (Inr (''oops'' @ crlf), ([], EOF))"
    using ReadSlice_line [of "''oops'' @ [CHR 0x0D]" "[]" EOF]
    by (simp add: crlf_def defaultBufSize_def)
  have l: "''oops'' @ crlf \<noteq> resultEnd"
    by (simp add: resultEnd_def)
  have sc: "scanGetResponseLine (exWorld reply) (''oops'' @ crlf) =
     Inl (Errorf ''memcache: unexpected line in get response: %q'' [''oops'' @ crlf])"
    by (simp add: scanGetResponseLine_def exWorld_def exSscanf_def crlf_def)
  show ?thesis
    using r l sc by (simp add: parseItem_def)
qed

lemma parseGetResponse_exPartial:
  "parseGetResponse (exWorld reply) (exPartial, EOF) cb x =
     (Done (cb exItemA x,
        Some (Errorf ''memcache: unexpected line in get response: %q'' [''oops'' @ crlf])),
      ([], EOF))"
proof -
  have "parseGetResponse (exWorld reply) (exPartial, EOF) cb x =
      parseGetResponse (exWorld reply) (''oops'' @ crlf, EOF) cb (cb exItemA x)"
    by (rule parseGetResponse_Emit [OF parseItem_exPartial])
  also have "\<dots> = (Done (cb exItemA x,
        Some (Errorf ''memcache: unexpected line in get response: %q'' [''oops'' @ crlf])),
      ([], EOF))"
    by (rule parseGetResponse_Stop [OF parseItem_oops])
  finally show ?thesis .
qed

lemma getFromAddr_exPartial:
  "freeconn c = None \<Longrightarrow>
     \<exists>c'. getFromAddr (exWorld exPartial) exAddr keys cb x c =
       (Done (cb exItemA x,
          Some (Errorf ''memcache: unexpected line in get response: %q'' [''oops'' @ crlf])), c')"
  by (simp add: getFromAddr_def withAddrRw_def getConn_new writeFlush_ex
      parseGetResponse_exPartial)

theorem GetMulti_map_witness:
  "fst (GetMulti (exWorld exPartial) [''a'', ''b''] newClient) =
     Done (Some [''a'' \<mapsto> exItemA],
       Some (Errorf ''memcache: unexpected line in get response: %q'' [''oops'' @ crlf]))
   \<and> GetMulti (exWorld []) [''a'', ''a b''] newClient =
       (Done (None, Some ErrMalformedKey), newClient\<lparr>trace := [EvPickServer ''a'']\<rparr>)
   \<and> GetMulti ((exWorld [])\<lparr>PickServer := \<lambda>key. Inl ErrNoServers\<rparr>) [''a'', ''b''] newClient =
       (Done (None, Some ErrNoServers), newClient\<lparr>trace := [EvPickServer ''a'']\<rparr>)"
proof -
  let ?W = "exWorld exPartial"
  let ?c1 = "newClient\<lparr>trace := [EvPickServer ''a'', EvPickServer ''b'']\<rparr>"
  have h: "\<forall>k \<in> set [''a'', ''b'']. legalKey k \<and> (\<exists>a. PickServer ?W k = Inr a)"
    by (simp add: legalKey_ab PickServer_ex)
  have p: "GetMulti_partition ?W [''a'', ''b''] [] newClient = (Inr [(exAddr, [''a'', ''b''])], ?c1)"
    by (simp add: legalKey_ab PickServer_ex trace_newClient)
  have f: "freeconn ?c1 = None"
    by (simp add: newClient_def)
  obtain c2 where g: "getFromAddr ?W exAddr [''a'', ''b''] collect [] ?c1 =
       (Done (collect exItemA [],
          Some (Errorf ''memcache: unexpected line in get response: %q'' [''oops'' @ crlf])), c2)"
    using getFromAddr_exPartial [OF f, of "[''a'', ''b'']" collect "[]"] by (elim exE)
  have d: "deliver addItemToMap Map.empty [exItemA] = [''a'' \<mapsto> exItemA]"
    by (simp add: deliver_def addItemToMap_def exItemA_def)
  have 0: "fst (GetMulti ?W [''a'', ''b''] newClient) =
     Done (Some [''a'' \<mapsto> exItemA],
       Some (Errorf ''memcache: unexpected line in get response: %q'' [''oops'' @ crlf]))"
    using mp [OF conjunct1 [OF GetMulti_map [of "[''a'', ''b'']" ?W newClient]] h]
    unfolding p by (simp add: g d collect_def)
  have 1: "GetMulti (exWorld []) [''a'', ''a b''] newClient =
       (Done (None, Some ErrMalformedKey), newClient\<lparr>trace := [EvPickServer ''a'']\<rparr>)"
    using GetMulti_map [of "[''a'', ''a b'']" "exWorld []" newClient,
        THEN conjunct2, THEN conjunct2, rule_format,
        of "[''a'']" "''a b''" "[]" ErrMalformedKey]
    by (simp add: legalKey_ab legalKey_ex_bad PickServer_ex trace_newClient)
  have 2: "GetMulti ((exWorld [])\<lparr>PickServer := \<lambda>key. Inl ErrNoServers\<rparr>) [''a'', ''b''] newClient =
       (Done (None, Some ErrNoServers), newClient\<lparr>trace := [EvPickServer ''a'']\<rparr>)"
    using GetMulti_map [of "[''a'', ''b'']" "(exWorld [])\<lparr>PickServer := \<lambda>key. Inl ErrNoServers\<rparr>"
        newClient, THEN conjunct2, THEN conjunct2, rule_format,
        of "[]" "''a''" "[''b'']" ErrNoServers]
    by (simp add: legalKey_ab trace_newClient)
  from 0 1 2 show ?thesis
    by (intro conjI)
qed

text \<open>
  C2 as the specification states it fails at a key list with an illegal key:
  \<open>GetMulti\<close> returns the nil map with \<open>ErrMalformedKey\<close>.
\<close>

theorem GetMulti_nil_map_counterexample:
  "\<not> legalKey ''a b''
   \<and> GetMulti (exWorld []) [''a b''] newClient = (Done (None, Some ErrMalformedKey), newClient)"
  by (simp add: GetMulti_def legalKey_ex_bad)

end
